theory Spec2Isabelle
  imports Main
begin

section \<open>Python values, exceptions and strings\<close>

text \<open>
  The extraction chain ends in a JSON parser, so the values that reach the code are the
  values \<open>json.loads\<close> builds. A dictionary is kept as an association list read with
  \<open>map_of\<close>; a finite float is the pair of its mantissa and binary exponent.
\<close>

datatype pyval =
    PNone
  | PBool bool
  | PInt int
  | PFloat int int
  | PStr string
  | PList "pyval list"
  | PDict "(string \<times> pyval) list"

text \<open>
  An exception is a value: its class and the text \<open>str(e)\<close> gives. For an exception
  that the interpreter raises the text is the one CPython gives; no property below depends
  on it.
\<close>

datatype pyexn =
    ServiceError string
  | OSError string
  | TypeError string
  | AttributeError string

fun str_exn :: "pyexn \<Rightarrow> string" where
  "str_exn (ServiceError m) = m"
| "str_exn (OSError m) = m"
| "str_exn (TypeError m) = m"
| "str_exn (AttributeError m) = m"

text \<open>Truth value of an object, as \<open>not x\<close> and \<open>if x\<close> test it.\<close>

fun truthy :: "pyval \<Rightarrow> bool" where
  "truthy PNone = False"
| "truthy (PBool b) = b"
| "truthy (PInt i) = (i \<noteq> 0)"
| "truthy (PFloat m e) = (m \<noteq> 0)"
| "truthy (PStr s) = (s \<noteq> [])"
| "truthy (PList xs) = (xs \<noteq> [])"
| "truthy (PDict kv) = (kv \<noteq> [])"

fun type_name :: "pyval \<Rightarrow> string" where
  "type_name PNone = ''NoneType''"
| "type_name (PBool b) = ''bool''"
| "type_name (PInt i) = ''int''"
| "type_name (PFloat m e) = ''float''"
| "type_name (PStr s) = ''str''"
| "type_name (PList xs) = ''list''"
| "type_name (PDict kv) = ''dict''"

text \<open>
  A \<open>char\<close> stands for the code point of the same number, so a string here is a Python
  string of code points below 256. The three character classes are the ones the \<open>re\<close>
  module and \<open>str.strip\<close> use on \<open>str\<close>, cut down to that range: \<open>\d\<close> is a decimal
  digit, \<open>\w\<close> is an alphanumeric character or the underscore, and \<open>strip\<close> removes
  whitespace.
\<close>

definition ord :: "char \<Rightarrow> nat" where
  "ord c = of_char c"

definition is_digit :: "char \<Rightarrow> bool" where
  "is_digit c = (48 \<le> ord c \<and> ord c \<le> 57)"

definition is_alnum :: "char \<Rightarrow> bool" where
  "is_alnum c =
     (let n = ord c in
        (48 \<le> n \<and> n \<le> 57) \<or> (65 \<le> n \<and> n \<le> 90) \<or> (97 \<le> n \<and> n \<le> 122)
        \<or> n = 170 \<or> n = 178 \<or> n = 179 \<or> n = 181 \<or> n = 185 \<or> n = 186
        \<or> (188 \<le> n \<and> n \<le> 190) \<or> (192 \<le> n \<and> n \<le> 214)
        \<or> (216 \<le> n \<and> n \<le> 246) \<or> (248 \<le> n \<and> n \<le> 255))"

definition is_word :: "char \<Rightarrow> bool" where
  "is_word c = (is_alnum c \<or> c = CHR ''_'')"

definition is_space :: "char \<Rightarrow> bool" where
  "is_space c =
     (let n = ord c in (9 \<le> n \<and> n \<le> 13) \<or> (28 \<le> n \<and> n \<le> 32) \<or> n = 133 \<or> n = 160)"

definition strip :: "string \<Rightarrow> string" where
  "strip s = rev (dropWhile is_space (rev (dropWhile is_space s)))"

text \<open>
  \<open>s.zfill(width)\<close>: zeros on the left up to the width, after a leading sign when
  there is one.
\<close>

definition zfill :: "string \<Rightarrow> nat \<Rightarrow> string" where
  "zfill s width =
     (if width \<le> length s then s
      else case s of
             [] \<Rightarrow> replicate width (CHR ''0'')
           | c # cs \<Rightarrow>
               if c = CHR ''+'' \<or> c = CHR ''-''
               then c # replicate (width - length s) (CHR ''0'') @ cs
               else replicate (width - length s) (CHR ''0'') @ s)"

section \<open>The filler-word substitution\<close>

text \<open>
  \<open>re.sub(r'\b(in|on|during|established|founded|created)\b', '', date_str,
  flags=re.IGNORECASE)\<close>. The scan goes left to right over the original string; at each
  position the alternatives are tried in their order, between two word boundaries; a
  match is deleted and the scan resumes behind it.
\<close>

definition fillers :: "string list" where
  "fillers = [''in'', ''on'', ''during'', ''established'', ''founded'', ''created'']"

text \<open>
  Under \<open>re.IGNORECASE\<close> a pattern letter matches a character whose lower case it is.
  The pattern letters are ASCII, and below 256 only the ASCII capitals have an ASCII lower
  case.
\<close>

definition lower :: "char \<Rightarrow> char" where
  "lower c = (if 65 \<le> ord c \<and> ord c \<le> 90 then char_of (ord c + 32) else c)"

fun imatch :: "string \<Rightarrow> string \<Rightarrow> bool" where
  "imatch [] s = True"
| "imatch (p # ps) [] = False"
| "imatch (p # ps) (c # cs) = (lower c = p \<and> imatch ps cs)"

text \<open>
  \<open>\b\<close> holds between two positions of which exactly one holds a word character; the
  two ends of the string count as holding none.
\<close>

fun word_opt :: "char option \<Rightarrow> bool" where
  "word_opt None = False"
| "word_opt (Some c) = is_word c"

definition boundary :: "char option \<Rightarrow> char option \<Rightarrow> bool" where
  "boundary l r = (word_opt l \<noteq> word_opt r)"

fun first_char :: "string \<Rightarrow> char option" where
  "first_char [] = None"
| "first_char (c # cs) = Some c"

fun last_char :: "string \<Rightarrow> char option" where
  "last_char [] = None"
| "last_char (c # cs) = (if cs = [] then Some c else last_char cs)"

text \<open>The alternative that matches at the head of \<open>s\<close>, where \<open>prev\<close> is the character before it.\<close>

definition filler_at :: "char option \<Rightarrow> string \<Rightarrow> string option" where
  "filler_at prev s =
     (if boundary prev (first_char s)
      then find (\<lambda>w. imatch w s
                   \<and> boundary (last_char (take (length w) s)) (first_char (drop (length w) s)))
             fillers
      else None)"

function sub_fillers :: "char option \<Rightarrow> string \<Rightarrow> string" where
  "sub_fillers prev [] = []"
| "sub_fillers prev (c # cs) =
     (case filler_at prev (c # cs) of
        Some w \<Rightarrow> sub_fillers (last_char (take (length w) (c # cs))) (drop (length w) (c # cs))
      | None \<Rightarrow> c # sub_fillers (Some c) cs)"
  by pat_completeness auto
termination
proof (relation "measure (\<lambda>(prev, s). length s)")
  show "wf (measure (\<lambda>(prev, s). length s))"
    by simp
next
  fix prev :: "char option" and c :: char and cs w :: string
  assume "filler_at prev (c # cs) = Some w"
  then have "w \<in> set fillers"
    by (auto simp: filler_at_def find_Some_iff split: if_splits)
  then have "w \<noteq> []"
    by (auto simp: fillers_def)
  then show "((last_char (take (length w) (c # cs)), drop (length w) (c # cs)), (prev, c # cs))
      \<in> measure (\<lambda>(prev, s). length s)"
    by simp
next
  fix prev :: "char option" and c :: char and cs :: string
  show "((Some c, cs), (prev, c # cs)) \<in> measure (\<lambda>(prev, s). length s)"
    by simp
qed

definition clean :: "string \<Rightarrow> string" where
  "clean date_str = strip (sub_fillers None date_str)"

section \<open>The date patterns\<close>

text \<open>
  Each of the five patterns is a sequence of capturing groups \<open>(\d{lo,hi})\<close> and literal
  characters. A group is greedy: it takes the longest run of digits first and gives
  characters back when the rest of the pattern fails.
\<close>

datatype tok = Digits nat nat | Lit char

fun first_some :: "'a option list \<Rightarrow> 'a option" where
  "first_some [] = None"
| "first_some (None # xs) = first_some xs"
| "first_some (Some x # xs) = Some x"

fun match_toks :: "tok list \<Rightarrow> string \<Rightarrow> string list option" where
  "match_toks [] s = Some []"
| "match_toks (Lit c # ts) s =
     (case s of [] \<Rightarrow> None | x # xs \<Rightarrow> if x = c then match_toks ts xs else None)"
| "match_toks (Digits lo hi # ts) s =
     first_some
       (map (\<lambda>n. if n \<le> length s \<and> list_all is_digit (take n s)
                 then map_option ((#) (take n s)) (match_toks ts (drop n s))
                 else None)
            (rev [lo..<Suc hi]))"

text \<open>\<open>re.search\<close>: the match at the leftmost position that has one; its groups.\<close>

fun search :: "tok list \<Rightarrow> string \<Rightarrow> string list option" where
  "search p [] = match_toks p []"
| "search p (c # cs) =
     (case match_toks p (c # cs) of Some groups \<Rightarrow> Some groups | None \<Rightarrow> search p cs)"

definition pat_ymd_dash :: "tok list" where
  "pat_ymd_dash = [Digits 4 4, Lit (CHR ''-''), Digits 1 2, Lit (CHR ''-''), Digits 1 2]"

definition pat_mdy_slash :: "tok list" where
  "pat_mdy_slash = [Digits 1 2, Lit (CHR ''/''), Digits 1 2, Lit (CHR ''/''), Digits 4 4]"

definition pat_ymd_slash :: "tok list" where
  "pat_ymd_slash = [Digits 4 4, Lit (CHR ''/''), Digits 1 2, Lit (CHR ''/''), Digits 1 2]"

definition pat_ym :: "tok list" where
  "pat_ym = [Digits 4 4, Lit (CHR ''-''), Digits 1 2]"

definition pat_y :: "tok list" where
  "pat_y = [Digits 4 4]"

definition patterns :: "tok list list" where
  "patterns = [pat_ymd_dash, pat_mdy_slash, pat_ymd_slash, pat_ym, pat_y]"

definition startswith :: "'a list \<Rightarrow> 'a list \<Rightarrow> bool" where
  "startswith xs p = (take (length p) xs = p)"

text \<open>
  The body of \<open>if match:\<close>: the branch is chosen by the number of groups, and among
  three groups by the pattern's text. \<open>None\<close> is the case where no branch returns and
  the loop goes on.
\<close>

fun format_match :: "tok list \<Rightarrow> string list \<Rightarrow> string option" where
  "format_match pattern [g1, g2, g3] =
     (if startswith pattern pat_mdy_slash
      then Some (g3 @ ''-'' @ zfill g1 2 @ ''-'' @ zfill g2 2)
      else Some (g1 @ ''-'' @ zfill g2 2 @ ''-'' @ zfill g3 2))"
| "format_match pattern [year, month] = Some (year @ ''-'' @ zfill month 2 @ ''-01'')"
| "format_match pattern [year] = Some (year @ ''-01-01'')"
| "format_match pattern groups = None"

fun try_patterns :: "tok list list \<Rightarrow> string \<Rightarrow> string option" where
  "try_patterns [] clean_date = None"
| "try_patterns (pattern # rest) clean_date =
     (case search pattern clean_date of
        None \<Rightarrow> try_patterns rest clean_date
      | Some groups \<Rightarrow>
          (case format_match pattern groups of
             Some r \<Rightarrow> Some r
           | None \<Rightarrow> try_patterns rest clean_date))"

text \<open>
  \<open>_normalize_date\<close>. A falsy argument gives the empty string; any other argument goes
  to \<open>re.sub\<close>, which raises \<open>TypeError\<close> on what is not a string.
\<close>

definition normalize_date :: "pyval \<Rightarrow> pyexn + string" where
  "normalize_date date_str =
     (if \<not> truthy date_str then Inr ''''
      else case date_str of
             PStr s \<Rightarrow>
               (case try_patterns patterns (clean s) of
                  Some r \<Rightarrow> Inr r
                | None \<Rightarrow> Inr s)
           | _ \<Rightarrow> Inl (TypeError ''expected string or bytes-like object''))"

section \<open>Company records and the validation of one extraction result\<close>

text \<open>
  The dataclass \<open>CompanyInfo\<close>. A dataclass checks no field type, so \<open>company_name\<close>
  and \<open>founders\<close> hold whatever value the result holds; \<open>founding_date\<close> is what
  \<open>_normalize_date\<close> returned, a string.
\<close>

record CompanyInfo =
  company_name :: pyval
  founding_date :: string
  founders :: pyval

definition quoted :: "string \<Rightarrow> string" where
  "quoted s = CHR 0x27 # s @ [CHR 0x27]"

text \<open>\<open>d.get(key, default)\<close> on a dictionary, and on any object.\<close>

definition get :: "(string \<times> pyval) list \<Rightarrow> string \<Rightarrow> pyval \<Rightarrow> pyval" where
  "get d key dflt = (case map_of d key of Some v \<Rightarrow> v | None \<Rightarrow> dflt)"

fun attr_get :: "pyval \<Rightarrow> string \<Rightarrow> pyval \<Rightarrow> pyexn + pyval" where
  "attr_get (PDict d) key dflt = Inr (get d key dflt)"
| "attr_get v key dflt =
     Inl (AttributeError (quoted (type_name v) @ '' object has no attribute '' @ quoted ''get''))"

text \<open>The elements a \<open>for\<close> loop draws from an object.\<close>

fun iter :: "pyval \<Rightarrow> pyexn + pyval list" where
  "iter (PList xs) = Inr xs"
| "iter (PStr s) = Inr (map (\<lambda>c. PStr [c]) s)"
| "iter (PDict d) = Inr (map (\<lambda>(k, v). PStr k) d)"
| "iter v = Inl (TypeError (quoted (type_name v) @ '' object is not iterable''))"

text \<open>
  The construction \<open>CompanyInfo(company_name=..., founding_date=..., founders=...)\<close>,
  its three arguments evaluated in this order.
\<close>

definition make_company :: "pyval \<Rightarrow> pyexn + CompanyInfo" where
  "make_company company_data =
     (case attr_get company_data ''company_name'' (PStr []) of
        Inl e \<Rightarrow> Inl e
      | Inr name \<Rightarrow>
          (case attr_get company_data ''founding_date'' (PStr []) of
             Inl e \<Rightarrow> Inl e
           | Inr raw \<Rightarrow>
               (case normalize_date raw of
                  Inl e \<Rightarrow> Inl e
                | Inr date \<Rightarrow>
                    (case attr_get company_data ''founders'' (PList []) of
                       Inl e \<Rightarrow> Inl e
                     | Inr fs \<Rightarrow>
                         Inr \<lparr>company_name = name, founding_date = date, founders = fs\<rparr>))))"

text \<open>
  The loop \<open>for company_data in result["companies"]\<close>. It appends to \<open>all_companies\<close>
  as it goes, so an exception leaves the records of the entries before it in the list.
\<close>

fun add_companies :: "pyval list \<Rightarrow> CompanyInfo list \<Rightarrow> pyexn option \<times> CompanyInfo list" where
  "add_companies [] all_companies = (None, all_companies)"
| "add_companies (company_data # rest) all_companies =
     (case make_company company_data of
        Inl e \<Rightarrow> (Some e, all_companies)
      | Inr company \<Rightarrow> add_companies rest (all_companies @ [company]))"

text \<open>What follows the call of the chain inside \<open>try\<close>, on its result.\<close>

fun process_result :: "pyval \<Rightarrow> CompanyInfo list \<Rightarrow> pyexn option \<times> CompanyInfo list" where
  "process_result (PDict d) all_companies =
     (case map_of d ''companies'' of
        None \<Rightarrow> (None, all_companies)
      | Some v \<Rightarrow>
          (case iter v of
             Inl e \<Rightarrow> (Some e, all_companies)
           | Inr items \<Rightarrow> add_companies items all_companies))"
| "process_result result all_companies = (None, all_companies)"

section \<open>The paragraph loop\<close>

definition nl :: char where
  "nl = CHR 0x0A"

text \<open>\<open>text.split('\n\n')\<close>: the pieces between the occurrences of two line feeds, left to right.\<close>

fun split_nn :: "string \<Rightarrow> string list" where
  "split_nn [] = [[]]"
| "split_nn [c] = [[c]]"
| "split_nn (a # b # cs) =
     (if a = nl \<and> b = nl then [] # split_nn cs
      else case split_nn (b # cs) of
             [] \<Rightarrow> [[a]]
           | p # ps \<Rightarrow> (a # p) # ps)"

definition paragraphs :: "string \<Rightarrow> string list" where
  "paragraphs text = map strip (filter (\<lambda>p. strip p \<noteq> []) (split_nn text))"

text \<open>
  The extraction chain is outside the program. It is a parameter: called on its state and
  a paragraph, it returns a value or raises, and moves to a new state, so that it may
  answer the same paragraph differently at each call.
\<close>

type_synonym 's chain = "'s \<Rightarrow> string \<Rightarrow> (pyexn + pyval) \<times> 's"

text \<open>
  The state of a run of the loop: the state of the chain, the lines printed and
  \<open>all_companies\<close>.
\<close>

definition error_line :: "pyexn \<Rightarrow> string" where
  "error_line e = ''Error processing paragraph: '' @ str_exn e"

fun process_paragraphs ::
  "'s chain \<Rightarrow> string list \<Rightarrow> 's \<times> string list \<times> CompanyInfo list
     \<Rightarrow> 's \<times> string list \<times> CompanyInfo list" where
  "process_paragraphs invoke [] st = st"
| "process_paragraphs invoke (paragraph # rest) (s, printed, all_companies) =
     (case invoke s paragraph of
        (Inl e, s') \<Rightarrow>
          process_paragraphs invoke rest (s', printed @ [error_line e], all_companies)
      | (Inr result, s') \<Rightarrow>
          (case process_result result all_companies of
             (Some e, all_companies') \<Rightarrow>
               process_paragraphs invoke rest (s', printed @ [error_line e], all_companies')
           | (None, all_companies') \<Rightarrow>
               process_paragraphs invoke rest (s', printed, all_companies')))"

section \<open>The export\<close>

text \<open>
  The file system: the rows of each file, a row being the list of its fields as handed to
  the \<open>csv\<close> writer, and the paths that \<open>open(filename, 'w')\<close> refuses, each with the
  text of the \<open>OSError\<close> it raises.
\<close>

record disk =
  files :: "string \<Rightarrow> pyval list list option"
  refused :: "string \<Rightarrow> string option"

definition open_w :: "string \<Rightarrow> disk \<Rightarrow> pyexn + disk" where
  "open_w filename d =
     (case refused d filename of
        Some m \<Rightarrow> Inl (OSError m)
      | None \<Rightarrow> Inr (d\<lparr>files := (files d)(filename \<mapsto> [])\<rparr>))"

definition write_row :: "string \<Rightarrow> pyval list \<Rightarrow> disk \<Rightarrow> disk" where
  "write_row filename row d =
     d\<lparr>files := (files d)(filename \<mapsto>
          (case files d filename of None \<Rightarrow> [] | Some rows \<Rightarrow> rows) @ [row])\<rparr>"

definition fieldnames :: "pyval list" where
  "fieldnames = [PStr ''company_name'', PStr ''founding_date'', PStr ''founders'']"

text \<open>\<open>str(n)\<close> for a number that is not negative.\<close>

fun str_nat :: "nat \<Rightarrow> string" where
  "str_nat n =
     (if n < 10 then [char_of (48 + n)] else str_nat (n div 10) @ [char_of (48 + n mod 10)])"

text \<open>\<open>sep.join(x)\<close>: \<open>x\<close> must be iterable and its elements strings.\<close>

fun str_items :: "nat \<Rightarrow> pyval list \<Rightarrow> pyexn + string list" where
  "str_items i [] = Inr []"
| "str_items i (PStr s # rest) =
     (case str_items (Suc i) rest of Inl e \<Rightarrow> Inl e | Inr ss \<Rightarrow> Inr (s # ss))"
| "str_items i (v # rest) =
     Inl (TypeError (''sequence item '' @ str_nat i @ '': expected str instance, ''
                     @ type_name v @ '' found''))"

fun concat_sep :: "string \<Rightarrow> string list \<Rightarrow> string" where
  "concat_sep sep [] = []"
| "concat_sep sep [s] = s"
| "concat_sep sep (s # ss) = s @ sep @ concat_sep sep ss"

definition join :: "string \<Rightarrow> pyval \<Rightarrow> pyexn + string" where
  "join sep x =
     (case iter x of
        Inl e \<Rightarrow> Inl (TypeError ''can only join an iterable'')
      | Inr items \<Rightarrow>
          (case str_items 0 items of Inl e \<Rightarrow> Inl e | Inr ss \<Rightarrow> Inr (concat_sep sep ss)))"

text \<open>\<open>_save_companies_to_csv\<close>: no \<open>try\<close>, no return value.\<close>

fun write_companies :: "string \<Rightarrow> CompanyInfo list \<Rightarrow> disk \<Rightarrow> pyexn option \<times> disk" where
  "write_companies filename [] d = (None, d)"
| "write_companies filename (company # rest) d =
     (case join '', '' (founders company) of
        Inl e \<Rightarrow> (Some e, d)
      | Inr founders_str \<Rightarrow>
          write_companies filename rest
            (write_row filename
               [company_name company, PStr (founding_date company), PStr founders_str] d))"

definition save_companies_to_csv ::
  "CompanyInfo list \<Rightarrow> string \<Rightarrow> disk \<Rightarrow> pyexn option \<times> disk" where
  "save_companies_to_csv companies filename d =
     (case open_w filename d of
        Inl e \<Rightarrow> (Some e, d)
      | Inr d' \<Rightarrow> write_companies filename companies (write_row filename fieldnames d'))"

text \<open>
  \<open>process_text_direct\<close>: the loop, then the export, which is outside every \<open>try\<close>.
  The result is the list returned or the exception that reaches the caller, with the final
  state of the chain, the disk and the lines printed.
\<close>

definition process_text_direct ::
  "'s chain \<Rightarrow> string \<Rightarrow> 's \<Rightarrow> disk
     \<Rightarrow> (pyexn + CompanyInfo list) \<times> 's \<times> disk \<times> string list" where
  "process_text_direct invoke text s d =
     (case process_paragraphs invoke (paragraphs text) (s, [], []) of
        (s', printed, all_companies) \<Rightarrow>
          (case save_companies_to_csv all_companies ''company_info.csv'' d of
             (Some e, d') \<Rightarrow> (Inl e, s', d', printed)
           | (None, d') \<Rightarrow> (Inr all_companies, s', d', printed)))"

text \<open>
  The body of \<open>save_to_csv\<close>: the same export over dictionaries, inside \<open>try\<close>,
  returning a status. Only the body is embedded. The \<open>@tool\<close> decorator, which binds the
  name to a tool object, belongs to a library outside the program and is not modelled, and
  no line of the program calls the tool; \<open>save_to_csv\<close> below is what the body computes
  once it runs.
\<close>

fun write_dicts :: "string \<Rightarrow> pyval list \<Rightarrow> disk \<Rightarrow> pyexn option \<times> disk" where
  "write_dicts filename [] d = (None, d)"
| "write_dicts filename (company # rest) d =
     (case attr_get company ''founders'' (PList []) of
        Inl e \<Rightarrow> (Some e, d)
      | Inr fs \<Rightarrow>
          (case join '', '' fs of
             Inl e \<Rightarrow> (Some e, d)
           | Inr founders_str \<Rightarrow>
               (case attr_get company ''company_name'' (PStr []) of
                  Inl e \<Rightarrow> (Some e, d)
                | Inr name \<Rightarrow>
                    (case attr_get company ''founding_date'' (PStr []) of
                       Inl e \<Rightarrow> (Some e, d)
                     | Inr date \<Rightarrow>
                         write_dicts filename rest
                           (write_row filename [name, date, PStr founders_str] d)))))"

definition save_to_csv :: "pyval list \<Rightarrow> string \<Rightarrow> disk \<Rightarrow> (pyexn + string) \<times> disk" where
  "save_to_csv companies_data filename d =
     (case (case open_w filename d of
              Inl e \<Rightarrow> (Some e, d)
            | Inr d' \<Rightarrow> write_dicts filename companies_data (write_row filename fieldnames d')) of
        (None, d') \<Rightarrow>
          (Inr (''Successfully saved '' @ str_nat (length companies_data) @ '' companies to ''
                @ filename), d')
      | (Some e, d') \<Rightarrow> (Inr (''Error saving to CSV: '' @ str_exn e), d'))"

section \<open>Notions used to state the properties\<close>

text \<open>The canonical form: \<open>re.fullmatch(r'\d{4}-\d{2}-\d{2}', s)\<close>.\<close>

definition is_canonical :: "string \<Rightarrow> bool" where
  "is_canonical s =
     (length s = 10 \<and> list_all is_digit (take 4 s) \<and> s ! 4 = CHR ''-''
      \<and> list_all is_digit (take 2 (drop 5 s)) \<and> s ! 7 = CHR ''-''
      \<and> list_all is_digit (drop 8 s))"

text \<open>\<open>f"{n:02d}"\<close> for a number that is not negative.\<close>

definition fmt02d :: "nat \<Rightarrow> string" where
  "fmt02d n = (if n < 10 then CHR ''0'' # str_nat n else str_nat n)"

text \<open>The groups a pattern can capture: one run of digits per group, within its bounds.\<close>

fun groups_ok :: "tok list \<Rightarrow> string list \<Rightarrow> bool" where
  "groups_ok [] gs = (gs = [])"
| "groups_ok (Lit c # ts) gs = groups_ok ts gs"
| "groups_ok (Digits lo hi # ts) gs =
     (case gs of
        [] \<Rightarrow> False
      | g # gs' \<Rightarrow> lo \<le> length g \<and> length g \<le> hi \<and> list_all is_digit g \<and> groups_ok ts gs')"

text \<open>What the chain answers to the successive paragraphs of a run, from a given state.\<close>

fun outcomes :: "'s chain \<Rightarrow> 's \<Rightarrow> string list \<Rightarrow> (pyexn + pyval) list" where
  "outcomes invoke s [] = []"
| "outcomes invoke s (paragraph # rest) =
     (case invoke s paragraph of (r, s') \<Rightarrow> r # outcomes invoke s' rest)"

text \<open>
  The records of one paragraph and the line it prints, by the outcome of its extraction:
  a failed call has no record and prints its exception.
\<close>

fun records_of :: "pyexn + pyval \<Rightarrow> CompanyInfo list" where
  "records_of (Inl e) = []"
| "records_of (Inr result) = snd (process_result result [])"

fun printed_of :: "pyexn + pyval \<Rightarrow> string list" where
  "printed_of (Inl e) = [error_line e]"
| "printed_of (Inr result) =
     (case fst (process_result result []) of None \<Rightarrow> [] | Some e \<Rightarrow> [error_line e])"

fun is_dict :: "pyval \<Rightarrow> bool" where
  "is_dict (PDict d) = True"
| "is_dict v = False"

fun is_str :: "pyval \<Rightarrow> bool" where
  "is_str (PStr s) = True"
| "is_str v = False"

text \<open>
  An entry that the loop processes without error: a dictionary whose \<open>founding_date\<close>
  is missing, a string, or falsy.
\<close>

fun normalizable :: "pyval \<Rightarrow> bool" where
  "normalizable (PStr s) = True"
| "normalizable v = (if truthy v then False else True)"

fun well_formed_entry :: "pyval \<Rightarrow> bool" where
  "well_formed_entry (PDict d) = normalizable (get d ''founding_date'' (PStr []))"
| "well_formed_entry v = False"

section \<open>Chains and disks for the examples\<close>

text \<open>
  The stub result of the end-to-end scenario, a chain that fails on its first call and
  returns that result afterwards, and a chain that always returns one company whose
  \<open>founders\<close> is \<open>null\<close>.
\<close>

definition acme_entry :: pyval where
  "acme_entry =
     PDict [(''company_name'', PStr ''Acme Corp''),
            (''founding_date'', PStr ''founded in 1999''),
            (''founders'', PList [PStr ''Jane Doe''])]"

definition acme_result :: pyval where
  "acme_result = PDict [(''companies'', PList [acme_entry])]"

definition failing_then_acme :: "nat chain" where
  "failing_then_acme n paragraph =
     (if n = 0 then Inl (ServiceError ''timeout'') else Inr acme_result, Suc n)"

definition null_founders_chain :: "unit chain" where
  "null_founders_chain u paragraph =
     (Inr (PDict [(''companies'',
             PList [PDict [(''company_name'', PStr ''Acme''), (''founders'', PNone)]])]), u)"

text \<open>A chain that fails on its first call and returns that company afterwards.\<close>

definition failing_then_null :: "nat chain" where
  "failing_then_null n paragraph =
     (if n = 0 then Inl (ServiceError ''timeout'')
      else Inr (PDict [(''companies'',
                  PList [PDict [(''company_name'', PStr ''Acme''), (''founders'', PNone)]])]),
      Suc n)"

definition always_acme :: "unit chain" where
  "always_acme u paragraph = (Inr acme_result, u)"

text \<open>A disk that takes every file, and one on which no file can be opened for writing.\<close>

definition empty_disk :: disk where
  "empty_disk = \<lparr>files = (\<lambda>name. None), refused = (\<lambda>name. None)\<rparr>"

definition readonly_disk :: disk where
  "readonly_disk = \<lparr>files = (\<lambda>name. None), refused = (\<lambda>name. Some ''Permission denied'')\<rparr>"

text \<open>A chain whose result holds an entry that is no dictionary between two that are.\<close>

definition mixed_result :: pyval where
  "mixed_result = PDict [(''companies'', PList [acme_entry, PInt 3, acme_entry])]"

definition mixed_chain :: "unit chain" where
  "mixed_chain u paragraph = (Inr mixed_result, u)"

section \<open>Facts about characters and strings\<close>

lemma plain_not_letter:
  assumes "ord c < 65"
  shows "lower c = c" and "c \<noteq> CHR ''i''" and "c \<noteq> CHR ''o''" and "c \<noteq> CHR ''d''"
    and "c \<noteq> CHR ''e''" and "c \<noteq> CHR ''f''" and "c \<noteq> CHR ''c''"
  using assms by (auto simp: lower_def ord_def)

lemma filler_at_plain: "ord c < 65 \<Longrightarrow> filler_at prev (c # cs) = None"
  by (simp add: filler_at_def fillers_def find_None_iff plain_not_letter)

lemma sub_fillers_plain: "\<forall>c\<in>set s. ord c < 65 \<Longrightarrow> sub_fillers prev s = s"
  by (induction s arbitrary: prev) (simp_all add: filler_at_plain)

lemma strip_id:
  assumes "s \<noteq> []" and "\<not> is_space (hd s)" and "\<not> is_space (last s)"
  shows "strip s = s"
proof -
  from assms(1,2) have a: "dropWhile is_space s = s"
    by (cases s) auto
  from assms(1,3) have "dropWhile is_space (rev s) = rev s"
    by (cases "rev s") (auto simp: last_rev [symmetric] simp del: last_rev)
  with a show ?thesis
    by (simp add: strip_def)
qed

lemma clean_plain:
  assumes "s \<noteq> []" and "\<forall>c\<in>set s. ord c < 65 \<and> \<not> is_space c"
  shows "clean s = s"
proof -
  from assms have "\<not> is_space (hd s)" "\<not> is_space (last s)"
    by simp_all
  with assms show ?thesis
    by (simp add: clean_def sub_fillers_plain strip_id)
qed

lemma digit_plain: "is_digit c \<Longrightarrow> ord c < 65 \<and> \<not> is_space c"
  by (auto simp: is_digit_def is_space_def)

lemma sep_plain:
  "ord CHR ''-'' < 65 \<and> \<not> is_space CHR ''-''" "ord CHR ''/'' < 65 \<and> \<not> is_space CHR ''/''"
  by (simp_all add: is_space_def ord_def)

lemma digit_neq [simp]:
  "is_digit c \<Longrightarrow> c \<noteq> CHR ''-''" "is_digit c \<Longrightarrow> c \<noteq> CHR ''/''"
  "is_digit c \<Longrightarrow> c \<noteq> CHR ''+''"
  by (auto simp: is_digit_def ord_def)

lemma not_digit [simp]: "\<not> is_digit CHR ''-''" "\<not> is_digit CHR ''/''"
  by (auto simp: is_digit_def ord_def)

lemma digit_zero_one [simp]: "is_digit CHR ''0''" "is_digit CHR ''1''"
  by (auto simp: is_digit_def ord_def)

lemma length4: "length y = 4 \<Longrightarrow> \<exists>a b c d. y = [a, b, c, d]"
  by (auto simp: numeral_eq_Suc length_Suc_conv)

lemma length12: "1 \<le> length m \<Longrightarrow> length m \<le> 2 \<Longrightarrow> (\<exists>a. m = [a]) \<or> (\<exists>a b. m = [a, b])"
  by (cases m; cases "tl m"; cases "tl (tl m)") auto

lemma zfill_group:
  assumes "list_all is_digit g" "1 \<le> length g" "length g \<le> 2"
  shows "length (zfill g 2) = 2 \<and> list_all is_digit (zfill g 2)"
  using length12 [OF assms(2,3)] assms(1) by (auto simp: zfill_def)

section \<open>Decimal numerals\<close>

declare str_nat.simps [simp del]

lemma digit_char_of: "(n::nat) < 10 \<Longrightarrow> is_digit (char_of (48 + n))"
  by (simp add: is_digit_def ord_def)

lemma str_nat_small: "n < 10 \<Longrightarrow> str_nat n = [char_of (48 + n)]"
  by (subst str_nat.simps) simp

lemma str_nat_step: "10 \<le> n \<Longrightarrow> str_nat n = str_nat (n div 10) @ [char_of (48 + n mod 10)]"
  by (subst str_nat.simps) simp

lemma str_nat_digits: "list_all is_digit (str_nat n)"
proof (induction n rule: str_nat.induct)
  case (1 n)
  show ?case
  proof (cases "n < 10")
    case True
    then show ?thesis by (simp add: str_nat_small digit_char_of)
  next
    case False
    with 1 show ?thesis by (simp add: str_nat_step digit_char_of)
  qed
qed

lemma str_nat_length2: "10 \<le> n \<Longrightarrow> n < 100 \<Longrightarrow> length (str_nat n) = 2"
  by (simp add: str_nat_step str_nat_small)

lemma str_nat_length12: "n < 100 \<Longrightarrow> 1 \<le> length (str_nat n) \<and> length (str_nat n) \<le> 2"
  by (cases "n < 10") (simp_all add: str_nat_small str_nat_length2)

lemma zfill_str_nat: "n < 100 \<Longrightarrow> zfill (str_nat n) 2 = fmt02d n"
proof (cases "n < 10")
  case True
  then have "is_digit (char_of (48 + n))" by (rule digit_char_of)
  with True show ?thesis
    by (simp add: fmt02d_def str_nat_small zfill_def)
next
  case False
  assume "n < 100"
  with False show ?thesis
    by (simp add: fmt02d_def zfill_def str_nat_length2)
qed

section \<open>Facts about the pattern matcher\<close>

lemma first_some_Some: "first_some xs = Some y \<Longrightarrow> Some y \<in> set xs"
  by (induction xs rule: first_some.induct) auto

lemma first_some_one: "first_some [x] = x"
  by (cases x) auto

lemma first_some_two: "first_some [x, y] = (case x of Some g \<Rightarrow> Some g | None \<Rightarrow> y)"
  by (cases x; cases y) auto

lemma match_toks_groups: "match_toks p s = Some gs \<Longrightarrow> groups_ok p gs"
proof (induction p arbitrary: s gs)
  case Nil
  then show ?case by simp
next
  case (Cons t ts)
  show ?case
  proof (cases t)
    case (Lit c)
    with Cons show ?thesis by (auto split: list.splits if_splits)
  next
    case (Digits lo hi)
    define f where "f = (\<lambda>n. if n \<le> length s \<and> list_all is_digit (take n s)
                 then map_option ((#) (take n s)) (match_toks ts (drop n s))
                 else None)"
    from Cons.prems Digits have "first_some (map f (rev [lo..<Suc hi])) = Some gs"
      by (simp add: f_def)
    then have "Some gs \<in> f ` set [lo..<Suc hi]"
      by (auto dest: first_some_Some)
    then obtain n where n: "lo \<le> n" "n \<le> hi" and fn: "f n = Some gs"
      by auto
    from fn have d: "n \<le> length s" "list_all is_digit (take n s)"
      and "map_option ((#) (take n s)) (match_toks ts (drop n s)) = Some gs"
      by (auto simp: f_def split: if_splits)
    then obtain gs' where m: "match_toks ts (drop n s) = Some gs'" and g: "gs = take n s # gs'"
      by auto
    from Cons.IH [OF m] have "groups_ok ts gs'" .
    with n d g Digits show ?thesis by simp
  qed
qed

lemma search_groups: "search p s = Some gs \<Longrightarrow> groups_ok p gs"
  by (induction s) (auto dest: match_toks_groups split: option.splits)

lemma match_digits4:
  "match_toks (Digits 4 4 # ts) s =
     (if 4 \<le> length s \<and> list_all is_digit (take 4 s)
      then map_option ((#) (take 4 s)) (match_toks ts (drop 4 s)) else None)"
proof -
  have "rev [4..<Suc 4] = [4::nat]"
    by simp
  then show ?thesis
    by (simp only: match_toks.simps list.map first_some_one)
qed

lemma match_digits12:
  "match_toks (Digits (Suc 0) 2 # ts) s =
     (case (if 2 \<le> length s \<and> list_all is_digit (take 2 s)
            then map_option ((#) (take 2 s)) (match_toks ts (drop 2 s)) else None) of
        Some gs \<Rightarrow> Some gs
      | None \<Rightarrow>
          (if Suc 0 \<le> length s \<and> list_all is_digit (take (Suc 0) s)
           then map_option ((#) (take (Suc 0) s)) (match_toks ts (drop (Suc 0) s)) else None))"
proof -
  have "rev [Suc 0..<Suc 2] = [2, Suc 0]"
    by (simp add: upt_conv_Cons numeral_2_eq_2)
  then show ?thesis
    by (simp only: match_toks.simps list.map first_some_two)
qed

lemmas pat_defs = pat_ymd_dash_def pat_mdy_slash_def pat_ymd_slash_def pat_ym_def pat_y_def

lemmas run_patterns = patterns_def pat_defs match_digits4 match_digits12 startswith_def

lemma search_empty: "p \<in> set patterns \<Longrightarrow> search p [] = None"
  by (auto simp: run_patterns simp del: match_toks.simps(3))

lemma clean_empty: "clean [] = []"
  by (simp add: clean_def strip_def)

lemma no_search_no_result:
  "\<forall>p\<in>set patterns. search p c = None \<Longrightarrow> try_patterns patterns c = None"
  by (simp add: patterns_def)

section \<open>Every match gives a canonical date\<close>

lemma canonical_build:
  assumes "length y = 4" "list_all is_digit y" "length m = 2" "list_all is_digit m"
    "length d = 2" "list_all is_digit d"
  shows "is_canonical (y @ CHR ''-'' # m @ CHR ''-'' # d)"
  using assms by (simp add: is_canonical_def nth_append)

lemma format3_canonical:
  assumes "length y = 4" "list_all is_digit y"
    and "list_all is_digit m" "1 \<le> length m" "length m \<le> 2"
    and "list_all is_digit d" "1 \<le> length d" "length d \<le> 2"
  shows "is_canonical (y @ CHR ''-'' # zfill m 2 @ CHR ''-'' # zfill d 2)"
  using canonical_build [of y "zfill m 2" "zfill d 2"] zfill_group [of m] zfill_group [of d] assms
  by simp

lemma format2_canonical:
  assumes "length y = 4" "list_all is_digit y"
    and "list_all is_digit m" "1 \<le> length m" "length m \<le> 2"
  shows "is_canonical (y @ CHR ''-'' # zfill m 2 @ ''-01'')"
  using canonical_build [of y "zfill m 2" "''01''"] zfill_group [of m] assms
  by simp

lemma format1_canonical:
  assumes "length y = 4" "list_all is_digit y"
  shows "is_canonical (y @ ''-01-01'')"
  using canonical_build [of y "''01''" "''01''"] assms
  by simp

lemma format_canonical:
  assumes "p \<in> set patterns" "groups_ok p gs"
  shows "\<exists>r. format_match p gs = Some r \<and> is_canonical r"
proof -
  from assms(1) consider "p = pat_ymd_dash" | "p = pat_mdy_slash" | "p = pat_ymd_slash"
    | "p = pat_ym" | "p = pat_y"
    by (auto simp: patterns_def)
  then show ?thesis
  proof cases
    case 1
    with assms(2) obtain y m d where "gs = [y, m, d]" "length y = 4" "list_all is_digit y"
      "list_all is_digit m" "1 \<le> length m" "length m \<le> 2"
      "list_all is_digit d" "1 \<le> length d" "length d \<le> 2"
      by (auto simp: pat_ymd_dash_def split: list.splits)
    with 1 show ?thesis
      by (simp add: startswith_def pat_defs format3_canonical)
  next
    case 2
    with assms(2) obtain y m d where "gs = [m, d, y]" "length y = 4" "list_all is_digit y"
      "list_all is_digit m" "1 \<le> length m" "length m \<le> 2"
      "list_all is_digit d" "1 \<le> length d" "length d \<le> 2"
      by (auto simp: pat_mdy_slash_def split: list.splits)
    with 2 show ?thesis
      by (simp add: startswith_def pat_defs format3_canonical)
  next
    case 3
    with assms(2) obtain y m d where "gs = [y, m, d]" "length y = 4" "list_all is_digit y"
      "list_all is_digit m" "1 \<le> length m" "length m \<le> 2"
      "list_all is_digit d" "1 \<le> length d" "length d \<le> 2"
      by (auto simp: pat_ymd_slash_def split: list.splits)
    with 3 show ?thesis
      by (simp add: startswith_def pat_defs format3_canonical)
  next
    case 4
    with assms(2) obtain y m where "gs = [y, m]" "length y = 4" "list_all is_digit y"
      "list_all is_digit m" "1 \<le> length m" "length m \<le> 2"
      by (auto simp: pat_ym_def split: list.splits)
    then show ?thesis
      by (simp add: format2_canonical)
  next
    case 5
    with assms(2) obtain y where "gs = [y]" "length y = 4" "list_all is_digit y"
      by (auto simp: pat_y_def split: list.splits)
    then show ?thesis
      by (simp add: format1_canonical)
  qed
qed

lemma try_patterns_canonical:
  "set ps \<subseteq> set patterns \<Longrightarrow> \<exists>p\<in>set ps. search p c \<noteq> None
   \<Longrightarrow> \<exists>r. try_patterns ps c = Some r \<and> is_canonical r"
proof (induction ps)
  case Nil
  then show ?case by simp
next
  case (Cons p ps)
  show ?case
  proof (cases "search p c")
    case None
    with Cons show ?thesis by auto
  next
    case (Some gs)
    from Cons.prems(1) have "p \<in> set patterns" by simp
    from format_canonical [OF this search_groups [OF Some]] Some show ?thesis
      by auto
  qed
qed

section \<open>The three shapes of a complete date and the two shorter ones\<close>

lemma year_only:
  assumes "length y = 4" "list_all is_digit y"
  shows "try_patterns patterns y = Some (y @ ''-01-01'')"
proof -
  from length4 [OF assms(1)] obtain a b c d where "y = [a, b, c, d]"
    by blast
  with assms(2) show ?thesis
    by (simp add: run_patterns del: match_toks.simps(3))
qed

lemma year_month:
  assumes "length y = 4" "list_all is_digit y"
    and "list_all is_digit m" "1 \<le> length m" "length m \<le> 2"
  shows "try_patterns patterns (y @ CHR ''-'' # m) = Some (y @ CHR ''-'' # zfill m 2 @ ''-01'')"
proof -
  from length4 [OF assms(1)] obtain a b c d where y: "y = [a, b, c, d]"
    by blast
  from length12 [OF assms(4,5)] show ?thesis
  proof (elim disjE exE)
    fix m1 assume "m = [m1]"
    with y assms(2,3) show ?thesis
      by (simp add: run_patterns del: match_toks.simps(3))
  next
    fix m1 m2 assume "m = [m1, m2]"
    with y assms(2,3) show ?thesis
      by (simp add: run_patterns del: match_toks.simps(3))
  qed
qed

lemma iso_date:
  assumes "length y = 4" "list_all is_digit y"
    and "list_all is_digit m" "1 \<le> length m" "length m \<le> 2"
    and "list_all is_digit d" "1 \<le> length d" "length d \<le> 2"
  shows "search pat_ymd_dash (y @ CHR ''-'' # m @ CHR ''-'' # d) = Some [y, m, d]"
proof -
  from length4 [OF assms(1)] obtain a b c e where y: "y = [a, b, c, e]"
    by blast
  from length12 [OF assms(4,5)] length12 [OF assms(7,8)] show ?thesis
  proof (elim disjE exE)
    fix m1 d1 assume "m = [m1]" "d = [d1]"
    with y assms(2,3,6) show ?thesis
      by (simp add: run_patterns del: match_toks.simps(3))
  next
    fix m1 d1 d2 assume "m = [m1]" "d = [d1, d2]"
    with y assms(2,3,6) show ?thesis
      by (simp add: run_patterns del: match_toks.simps(3))
  next
    fix m1 m2 d1 assume "m = [m1, m2]" "d = [d1]"
    with y assms(2,3,6) show ?thesis
      by (simp add: run_patterns del: match_toks.simps(3))
  next
    fix m1 m2 d1 d2 assume "m = [m1, m2]" "d = [d1, d2]"
    with y assms(2,3,6) show ?thesis
      by (simp add: run_patterns del: match_toks.simps(3))
  qed
qed

lemma us_date:
  assumes "length y = 4" "list_all is_digit y"
    and "list_all is_digit m" "1 \<le> length m" "length m \<le> 2"
    and "list_all is_digit d" "1 \<le> length d" "length d \<le> 2"
  shows "search pat_ymd_dash (m @ CHR ''/'' # d @ CHR ''/'' # y) = None
    \<and> search pat_mdy_slash (m @ CHR ''/'' # d @ CHR ''/'' # y) = Some [m, d, y]"
proof -
  from length4 [OF assms(1)] obtain a b c e where y: "y = [a, b, c, e]"
    by blast
  from length12 [OF assms(4,5)] length12 [OF assms(7,8)] show ?thesis
  proof (elim disjE exE)
    fix m1 d1 assume "m = [m1]" "d = [d1]"
    with y assms(2,3,6) show ?thesis
      by (simp add: run_patterns del: match_toks.simps(3))
  next
    fix m1 d1 d2 assume "m = [m1]" "d = [d1, d2]"
    with y assms(2,3,6) show ?thesis
      by (simp add: run_patterns del: match_toks.simps(3))
  next
    fix m1 m2 d1 assume "m = [m1, m2]" "d = [d1]"
    with y assms(2,3,6) show ?thesis
      by (simp add: run_patterns del: match_toks.simps(3))
  next
    fix m1 m2 d1 d2 assume "m = [m1, m2]" "d = [d1, d2]"
    with y assms(2,3,6) show ?thesis
      by (simp add: run_patterns del: match_toks.simps(3))
  qed
qed

section \<open>Properties of the date normalizer\<close>

lemma normalize_date_str:
  "s \<noteq> [] \<Longrightarrow> normalize_date (PStr s) =
     Inr (case try_patterns patterns (clean s) of Some r \<Rightarrow> r | None \<Rightarrow> s)"
  by (simp add: normalize_date_def split: option.splits)

lemma digits_plain:
  "list_all is_digit s \<Longrightarrow> \<forall>c\<in>set s. ord c < 65 \<and> \<not> is_space c"
  by (auto simp: list_all_iff dest: digit_plain)

lemma clean_year: "length y = 4 \<Longrightarrow> list_all is_digit y \<Longrightarrow> clean y = y"
  by (rule clean_plain) (auto dest: digits_plain)

lemma clean_dash2:
  assumes "list_all is_digit y" "list_all is_digit m"
  shows "clean (y @ CHR ''-'' # m) = y @ CHR ''-'' # m"
  using digits_plain [OF assms(1)] digits_plain [OF assms(2)] sep_plain
  by (intro clean_plain) auto

lemma clean_sep3:
  assumes "list_all is_digit a" "list_all is_digit b" "list_all is_digit c"
    and "x = CHR ''-'' \<or> x = CHR ''/''"
  shows "clean (a @ x # b @ x # c) = a @ x # b @ x # c"
  using digits_plain [OF assms(1)] digits_plain [OF assms(2)] digits_plain [OF assms(3)]
    sep_plain assms(4)
  by (intro clean_plain) auto

lemma normalize_iso:
  assumes "length y = 4" "list_all is_digit y"
    and "list_all is_digit m" "1 \<le> length m" "length m \<le> 2"
    and "list_all is_digit d" "1 \<le> length d" "length d \<le> 2"
  shows "normalize_date (PStr (y @ CHR ''-'' # m @ CHR ''-'' # d)) =
    Inr (y @ CHR ''-'' # zfill m 2 @ CHR ''-'' # zfill d 2)"
proof -
  have "try_patterns patterns (y @ CHR ''-'' # m @ CHR ''-'' # d) =
      Some (y @ CHR ''-'' # zfill m 2 @ CHR ''-'' # zfill d 2)"
    using iso_date [OF assms] by (simp add: patterns_def startswith_def pat_defs)
  with assms show ?thesis
    by (simp add: normalize_date_str clean_sep3)
qed

lemma normalize_us:
  assumes "length y = 4" "list_all is_digit y"
    and "list_all is_digit m" "1 \<le> length m" "length m \<le> 2"
    and "list_all is_digit d" "1 \<le> length d" "length d \<le> 2"
  shows "normalize_date (PStr (m @ CHR ''/'' # d @ CHR ''/'' # y)) =
    Inr (y @ CHR ''-'' # zfill m 2 @ CHR ''-'' # zfill d 2)"
proof -
  have "try_patterns patterns (m @ CHR ''/'' # d @ CHR ''/'' # y) =
      Some (y @ CHR ''-'' # zfill m 2 @ CHR ''-'' # zfill d 2)"
    using us_date [OF assms] by (simp add: patterns_def startswith_def pat_defs)
  with assms show ?thesis
    by (simp add: normalize_date_str clean_sep3)
qed

lemma part_string:
  "n < 100 \<Longrightarrow> list_all is_digit (str_nat n) \<and> 1 \<le> length (str_nat n)
     \<and> length (str_nat n) \<le> 2 \<and> zfill (str_nat n) 2 = fmt02d n"
  using str_nat_length12 [of n] by (simp add: str_nat_digits zfill_str_nat)

text \<open>
  C2, as amended. When none of the five patterns matches the cleaned string, a non-empty
  input is returned as it was given, filler words and surrounding whitespace included: the
  cleaned string serves the matching only, and the result differs from it whenever the
  cleaning changed the input.
\<close>

theorem normalize_date_no_match_returns_raw:
  assumes "s \<noteq> []" and "\<forall>p\<in>set patterns. search p (clean s) = None"
  shows "normalize_date (PStr s) = Inr s
    \<and> (clean s \<noteq> s \<longrightarrow> normalize_date (PStr s) \<noteq> Inr (clean s))"
  using assms by (simp add: normalize_date_str no_search_no_result)

theorem normalize_date_no_match_returns_raw_witness:
  "''in May'' \<noteq> []
    \<and> search pat_ymd_dash (clean ''in May'') = None
    \<and> search pat_mdy_slash (clean ''in May'') = None
    \<and> search pat_ymd_slash (clean ''in May'') = None
    \<and> search pat_ym (clean ''in May'') = None
    \<and> search pat_y (clean ''in May'') = None
    \<and> clean ''in May'' \<noteq> ''in May''
    \<and> normalize_date (PStr ''in May'') = Inr ''in May''
    \<and> normalize_date (PStr ''in May'') \<noteq> Inr (clean ''in May'')"
proof -
  have a: "''in May'' \<noteq> []"
    by simp
  have b: "search pat_ymd_dash (clean ''in May'') = None
    \<and> search pat_mdy_slash (clean ''in May'') = None
    \<and> search pat_ymd_slash (clean ''in May'') = None
    \<and> search pat_ym (clean ''in May'') = None
    \<and> search pat_y (clean ''in May'') = None"
    by code_simp
  then have b': "\<forall>p\<in>set patterns. search p (clean ''in May'') = None"
    by (simp add: patterns_def)
  have c: "clean ''in May'' \<noteq> ''in May''"
    by code_simp
  from normalize_date_no_match_returns_raw [OF a b'] a b c show ?thesis
    by blast
qed

text \<open>
  C2, as stated, fails: on \<open>"in May"\<close> no pattern matches the cleaned string \<open>"May"\<close>,
  and the result is the raw input, not the cleaned string.
\<close>

theorem normalize_date_cleaned_counterexample:
  "clean ''in May'' = ''May'' \<and> try_patterns patterns (clean ''in May'') = None
    \<and> normalize_date (PStr ''in May'') = Inr ''in May''
    \<and> normalize_date (PStr ''in May'') \<noteq> Inr ''May''"
  by code_simp

text \<open>
  C3. \<open>_normalize_date\<close> returns on every string: the empty string for an absent or empty
  input, and a non-empty input unchanged when no pattern matches.
\<close>

theorem normalize_date_total:
  "normalize_date PNone = Inr ''''
    \<and> normalize_date (PStr '''') = Inr ''''
    \<and> (\<exists>r. normalize_date (PStr s) = Inr r)
    \<and> (s \<noteq> [] \<and> (\<forall>p\<in>set patterns. search p (clean s) = None)
         \<longrightarrow> normalize_date (PStr s) = Inr s)"
proof -
  have "\<exists>r. normalize_date (PStr s) = Inr r"
    by (simp add: normalize_date_def split: option.splits)
  moreover have "normalize_date PNone = Inr ''''" "normalize_date (PStr '''') = Inr ''''"
    by (simp_all add: normalize_date_def)
  ultimately show ?thesis
    by (simp add: normalize_date_str no_search_no_result)
qed

theorem normalize_date_total_witness:
  "''not a date'' \<noteq> []
    \<and> search pat_ymd_dash (clean ''not a date'') = None
    \<and> search pat_mdy_slash (clean ''not a date'') = None
    \<and> search pat_ymd_slash (clean ''not a date'') = None
    \<and> search pat_ym (clean ''not a date'') = None
    \<and> search pat_y (clean ''not a date'') = None
    \<and> normalize_date (PStr ''not a date'') = Inr ''not a date''"
proof -
  have a: "''not a date'' \<noteq> []"
    by simp
  have b: "search pat_ymd_dash (clean ''not a date'') = None
    \<and> search pat_mdy_slash (clean ''not a date'') = None
    \<and> search pat_ymd_slash (clean ''not a date'') = None
    \<and> search pat_ym (clean ''not a date'') = None
    \<and> search pat_y (clean ''not a date'') = None"
    by code_simp
  then have b': "\<forall>p\<in>set patterns. search p (clean ''not a date'') = None"
    by (simp add: patterns_def)
  from normalize_date_total [of "''not a date''"] a b b' show ?thesis
    by blast
qed

section \<open>The result of each pattern, in the order of the list\<close>

lemma match_nonempty:
  assumes "p \<in> set patterns" and "search p (clean s) = Some gs"
  shows "s \<noteq> []"
proof
  assume "s = []"
  with assms(2) have "search p [] = Some gs"
    by (simp add: clean_empty del: search.simps)
  with search_empty [OF assms(1)] show False
    by simp
qed

lemma first_pattern:
  assumes "search pat_ymd_dash c = Some gs"
  shows "\<exists>y m d. gs = [y, m, d]
    \<and> try_patterns patterns c = Some (y @ ''-'' @ zfill m 2 @ ''-'' @ zfill d 2)"
proof -
  from search_groups [OF assms] obtain y m d where "gs = [y, m, d]"
    by (auto simp: pat_ymd_dash_def split: list.splits)
  with assms show ?thesis
    by (simp add: patterns_def startswith_def pat_mdy_slash_def pat_ymd_dash_def)
qed

lemma second_pattern:
  assumes "search pat_ymd_dash c = None" and "search pat_mdy_slash c = Some gs"
  shows "\<exists>m d y. gs = [m, d, y]
    \<and> try_patterns patterns c = Some (y @ ''-'' @ zfill m 2 @ ''-'' @ zfill d 2)"
proof -
  from search_groups [OF assms(2)] obtain m d y where "gs = [m, d, y]"
    by (auto simp: pat_mdy_slash_def split: list.splits)
  with assms show ?thesis
    by (simp add: patterns_def startswith_def)
qed

lemma third_pattern:
  assumes "search pat_ymd_dash c = None" and "search pat_mdy_slash c = None"
    and "search pat_ymd_slash c = Some gs"
  shows "\<exists>y m d. gs = [y, m, d]
    \<and> try_patterns patterns c = Some (y @ ''-'' @ zfill m 2 @ ''-'' @ zfill d 2)"
proof -
  from search_groups [OF assms(3)] obtain y m d where "gs = [y, m, d]"
    by (auto simp: pat_ymd_slash_def split: list.splits)
  with assms show ?thesis
    by (simp add: patterns_def startswith_def pat_mdy_slash_def pat_ymd_slash_def)
qed

lemma fourth_pattern:
  assumes "search pat_ymd_dash c = None" and "search pat_mdy_slash c = None"
    and "search pat_ymd_slash c = None" and "search pat_ym c = Some gs"
  shows "\<exists>y m. gs = [y, m] \<and> try_patterns patterns c = Some (y @ ''-'' @ zfill m 2 @ ''-01'')"
proof -
  from search_groups [OF assms(4)] obtain y m where "gs = [y, m]"
    by (auto simp: pat_ym_def split: list.splits)
  with assms show ?thesis
    by (simp add: patterns_def)
qed

lemma fifth_pattern:
  assumes "search pat_ymd_dash c = None" and "search pat_mdy_slash c = None"
    and "search pat_ymd_slash c = None" and "search pat_ym c = None"
    and "search pat_y c = Some gs"
  shows "\<exists>y. gs = [y] \<and> try_patterns patterns c = Some (y @ ''-01-01'')"
proof -
  from search_groups [OF assms(5)] obtain y where "gs = [y]"
    by (auto simp: pat_y_def split: list.splits)
  with assms show ?thesis
    by (simp add: patterns_def)
qed

lemma in_patterns:
  "pat_ymd_dash \<in> set patterns" "pat_mdy_slash \<in> set patterns" "pat_ymd_slash \<in> set patterns"
  "pat_ym \<in> set patterns" "pat_y \<in> set patterns"
  by (simp_all add: patterns_def)

lemma normalize_first:
  assumes "search pat_ymd_dash (clean s) = Some gs"
  shows "\<exists>y m d. gs = [y, m, d]
    \<and> normalize_date (PStr s) = Inr (y @ ''-'' @ zfill m 2 @ ''-'' @ zfill d 2)"
  using first_pattern [OF assms] match_nonempty [OF in_patterns(1) assms]
  by (auto simp: normalize_date_str)

lemma normalize_second:
  assumes "search pat_ymd_dash (clean s) = None" and "search pat_mdy_slash (clean s) = Some gs"
  shows "\<exists>m d y. gs = [m, d, y]
    \<and> normalize_date (PStr s) = Inr (y @ ''-'' @ zfill m 2 @ ''-'' @ zfill d 2)"
  using second_pattern [OF assms] match_nonempty [OF in_patterns(2) assms(2)]
  by (auto simp: normalize_date_str)

lemma normalize_third:
  assumes "search pat_ymd_dash (clean s) = None" and "search pat_mdy_slash (clean s) = None"
    and "search pat_ymd_slash (clean s) = Some gs"
  shows "\<exists>y m d. gs = [y, m, d]
    \<and> normalize_date (PStr s) = Inr (y @ ''-'' @ zfill m 2 @ ''-'' @ zfill d 2)"
  using third_pattern [OF assms] match_nonempty [OF in_patterns(3) assms(3)]
  by (auto simp: normalize_date_str)

lemma normalize_fourth:
  assumes "search pat_ymd_dash (clean s) = None" and "search pat_mdy_slash (clean s) = None"
    and "search pat_ymd_slash (clean s) = None" and "search pat_ym (clean s) = Some gs"
  shows "\<exists>y m. gs = [y, m] \<and> normalize_date (PStr s) = Inr (y @ ''-'' @ zfill m 2 @ ''-01'')"
  using fourth_pattern [OF assms] match_nonempty [OF in_patterns(4) assms(4)]
  by (auto simp: normalize_date_str)

lemma normalize_fifth:
  assumes "search pat_ymd_dash (clean s) = None" and "search pat_mdy_slash (clean s) = None"
    and "search pat_ymd_slash (clean s) = None" and "search pat_ym (clean s) = None"
    and "search pat_y (clean s) = Some gs"
  shows "\<exists>y. gs = [y] \<and> normalize_date (PStr s) = Inr (y @ ''-01-01'')"
  using fifth_pattern [OF assms] match_nonempty [OF in_patterns(5) assms(5)]
  by (auto simp: normalize_date_str)

lemma zfill_one: "is_digit a \<Longrightarrow> zfill [a] 2 = [CHR ''0'', a]"
  by (simp add: zfill_def)

lemma zfill_two: "length g = 2 \<Longrightarrow> zfill g 2 = g"
  by (simp add: zfill_def)

text \<open>
  C4, as amended. For a year \<open>Y\<close> of exactly four digits and a month and a day written
  without padding, the US form \<open>M/D/Y\<close> and the ISO form \<open>Y-M-D\<close> give the same string
  \<open>Y-MM-DD\<close>, which is canonical. The order of the patterns decides: whenever the ISO dash
  pattern matches somewhere in the cleaned string its groups give the result, whatever
  the US slash pattern matches, and the US slash pattern gives the result when the ISO
  dash pattern matches nowhere. On \<open>"1/2/2020-3-4"\<close> both match and the result is the ISO
  one.
\<close>

theorem normalize_date_us_iso_agree:
  "(length y = 4 \<and> list_all is_digit y \<and> m < 100 \<and> d < 100
      \<longrightarrow> normalize_date (PStr (str_nat m @ ''/'' @ str_nat d @ ''/'' @ y))
            = Inr (y @ ''-'' @ fmt02d m @ ''-'' @ fmt02d d)
        \<and> normalize_date (PStr (y @ ''-'' @ str_nat m @ ''-'' @ str_nat d))
            = Inr (y @ ''-'' @ fmt02d m @ ''-'' @ fmt02d d)
        \<and> is_canonical (y @ ''-'' @ fmt02d m @ ''-'' @ fmt02d d)
        \<and> search pat_ymd_dash (y @ ''-'' @ str_nat m @ ''-'' @ str_nat d)
            = Some [y, str_nat m, str_nat d]
        \<and> search pat_ymd_dash (str_nat m @ ''/'' @ str_nat d @ ''/'' @ y) = None
        \<and> search pat_mdy_slash (str_nat m @ ''/'' @ str_nat d @ ''/'' @ y)
            = Some [str_nat m, str_nat d, y])
    \<and> (search pat_ymd_dash (clean s) = Some [g1, g2, g3]
         \<longrightarrow> normalize_date (PStr s) = Inr (g1 @ ''-'' @ zfill g2 2 @ ''-'' @ zfill g3 2))
    \<and> (search pat_ymd_dash (clean t) = None \<and> search pat_mdy_slash (clean t) = Some [h1, h2, h3]
         \<longrightarrow> normalize_date (PStr t) = Inr (h3 @ ''-'' @ zfill h1 2 @ ''-'' @ zfill h2 2))
    \<and> search pat_ymd_dash (clean ''1/2/2020-3-4'') = Some [''2020'', ''3'', ''4'']
    \<and> search pat_mdy_slash (clean ''1/2/2020-3-4'') = Some [''1'', ''2'', ''2020'']
    \<and> normalize_date (PStr ''1/2/2020-3-4'') = Inr ''2020-03-04''"
proof -
  have a: "normalize_date (PStr (str_nat m @ ''/'' @ str_nat d @ ''/'' @ y))
            = Inr (y @ ''-'' @ fmt02d m @ ''-'' @ fmt02d d)
        \<and> normalize_date (PStr (y @ ''-'' @ str_nat m @ ''-'' @ str_nat d))
            = Inr (y @ ''-'' @ fmt02d m @ ''-'' @ fmt02d d)
        \<and> is_canonical (y @ ''-'' @ fmt02d m @ ''-'' @ fmt02d d)
        \<and> search pat_ymd_dash (y @ ''-'' @ str_nat m @ ''-'' @ str_nat d)
            = Some [y, str_nat m, str_nat d]
        \<and> search pat_ymd_dash (str_nat m @ ''/'' @ str_nat d @ ''/'' @ y) = None
        \<and> search pat_mdy_slash (str_nat m @ ''/'' @ str_nat d @ ''/'' @ y)
            = Some [str_nat m, str_nat d, y]"
    if y: "length y = 4" "list_all is_digit y" and "m < 100" "d < 100"
  proof -
    note m = part_string [OF that(3)]
    note d = part_string [OF that(4)]
    from y m d have k: "length y = 4" "list_all is_digit y"
      "list_all is_digit (str_nat m)" "1 \<le> length (str_nat m)" "length (str_nat m) \<le> 2"
      "list_all is_digit (str_nat d)" "1 \<le> length (str_nat d)" "length (str_nat d) \<le> 2"
      by simp_all
    from normalize_us [OF k] normalize_iso [OF k] iso_date [OF k] us_date [OF k]
      format3_canonical [OF k] m d
    show ?thesis
      by simp
  qed
  have b: "normalize_date (PStr s) = Inr (g1 @ ''-'' @ zfill g2 2 @ ''-'' @ zfill g3 2)"
    if "search pat_ymd_dash (clean s) = Some [g1, g2, g3]"
    using normalize_first [OF that] by simp
  have c: "normalize_date (PStr t) = Inr (h3 @ ''-'' @ zfill h1 2 @ ''-'' @ zfill h2 2)"
    if "search pat_ymd_dash (clean t) = None" "search pat_mdy_slash (clean t) = Some [h1, h2, h3]"
    using normalize_second [OF that] by simp
  have e: "search pat_ymd_dash (clean ''1/2/2020-3-4'') = Some [''2020'', ''3'', ''4'']"
    "search pat_mdy_slash (clean ''1/2/2020-3-4'') = Some [''1'', ''2'', ''2020'']"
    "normalize_date (PStr ''1/2/2020-3-4'') = Inr ''2020-03-04''"
    by code_simp+
  from a b c e show ?thesis
    by blast
qed

theorem normalize_date_us_iso_agree_witness:
  "length ''1999'' = 4 \<and> list_all is_digit ''1999'' \<and> (5::nat) < 100 \<and> (7::nat) < 100
    \<and> str_nat 5 @ ''/'' @ str_nat 7 @ ''/'' @ ''1999'' = ''5/7/1999''
    \<and> ''1999'' @ ''-'' @ str_nat 5 @ ''-'' @ str_nat 7 = ''1999-5-7''
    \<and> normalize_date (PStr ''5/7/1999'') = Inr ''1999-05-07''
    \<and> normalize_date (PStr ''1999-5-7'') = Inr ''1999-05-07''
    \<and> search pat_ymd_dash (clean ''1/2/2020-3-4'') = Some [''2020'', ''3'', ''4'']
    \<and> normalize_date (PStr ''1/2/2020-3-4'') = Inr (''2020'' @ ''-'' @ zfill ''3'' 2 @ ''-'' @ zfill ''4'' 2)
    \<and> search pat_ymd_dash (clean ''5/7/1999'') = None
    \<and> search pat_mdy_slash (clean ''5/7/1999'') = Some [''5'', ''7'', ''1999'']
    \<and> normalize_date (PStr ''5/7/1999'') = Inr (''1999'' @ ''-'' @ zfill ''5'' 2 @ ''-'' @ zfill ''7'' 2)"
proof -
  have h: "length ''1999'' = 4 \<and> list_all is_digit ''1999''"
    by code_simp
  have e: "''1999'' @ ''-'' @ fmt02d 5 @ ''-'' @ fmt02d 7 = ''1999-05-07''"
    by code_simp
  have f: "str_nat 5 @ ''/'' @ str_nat 7 @ ''/'' @ ''1999'' = ''5/7/1999''"
    "''1999'' @ ''-'' @ str_nat 5 @ ''-'' @ str_nat 7 = ''1999-5-7''"
    by code_simp+
  have g: "search pat_ymd_dash (clean ''1/2/2020-3-4'') = Some [''2020'', ''3'', ''4'']"
    "search pat_ymd_dash (clean ''5/7/1999'') = None"
    "search pat_mdy_slash (clean ''5/7/1999'') = Some [''5'', ''7'', ''1999'']"
    by code_simp+
  have z: "zfill ''3'' 2 = ''03''" "zfill ''4'' 2 = ''04''" "zfill ''5'' 2 = ''05''"
    "zfill ''7'' 2 = ''07''"
    by code_simp+
  from normalize_date_us_iso_agree
    [of "''1999''" 5 7 "''1/2/2020-3-4''" "''2020''" "''3''" "''4''" "''5/7/1999''"
      "''5''" "''7''" "''1999''"]
    h e f g z
  show ?thesis
    by simp
qed

text \<open>
  C4, as stated, fails for a year that has not exactly four digits. With the three-digit
  year 999 both forms come back unchanged, so they differ and neither is canonical; with
  the five-digit year 12345 the two forms give two different dates.
\<close>

theorem normalize_date_year_width_counterexample:
  "normalize_date (PStr ''5/7/999'') = Inr ''5/7/999''
    \<and> normalize_date (PStr ''999-5-7'') = Inr ''999-5-7''
    \<and> normalize_date (PStr ''5/7/12345'') = Inr ''1234-05-07''
    \<and> normalize_date (PStr ''12345-5-7'') = Inr ''2345-05-07''"
  by code_simp

text \<open>
  C5. A bare four-digit year gives \<open>Y-01-01\<close>; a year and an unpadded month give
  \<open>Y-MM-01\<close>; the filler words go first: \<open>"founded in 1999"\<close> is cleaned to \<open>"1999"\<close>
  and gives \<open>"1999-01-01"\<close>; the empty string gives the empty string.
\<close>

theorem normalize_date_completes:
  "(length y = 4 \<and> list_all is_digit y \<longrightarrow> normalize_date (PStr y) = Inr (y @ ''-01-01''))
    \<and> (length y = 4 \<and> list_all is_digit y \<and> 1 \<le> m \<and> m \<le> 12
         \<longrightarrow> normalize_date (PStr (y @ ''-'' @ str_nat m)) = Inr (y @ ''-'' @ fmt02d m @ ''-01''))
    \<and> normalize_date (PStr ''founded in 1999'') = Inr ''1999-01-01''
    \<and> normalize_date (PStr '''') = Inr ''''
    \<and> sub_fillers None ''founded in 1999'' = ''  1999''
    \<and> clean ''founded in 1999'' = ''1999''
    \<and> clean ''Established ON 7/4/1976'' = ''7/4/1976''"
proof -
  have a: "normalize_date (PStr y) = Inr (y @ ''-01-01'')"
    if "length y = 4" "list_all is_digit y"
  proof -
    from that(1) have "y \<noteq> []"
      by auto
    with that show ?thesis
      by (simp add: normalize_date_str clean_year year_only)
  qed
  have b: "normalize_date (PStr (y @ ''-'' @ str_nat m)) = Inr (y @ ''-'' @ fmt02d m @ ''-01'')"
    if y: "length y = 4" "list_all is_digit y" and m: "1 \<le> m" "m \<le> 12"
  proof -
    from m have "m < 100" by simp
    note p = part_string [OF this]
    from y have "y \<noteq> []"
      by auto
    from p y have "try_patterns patterns (y @ CHR ''-'' # str_nat m)
        = Some (y @ CHR ''-'' # fmt02d m @ ''-01'')"
      using year_month [of y "str_nat m"] by simp
    with y p \<open>y \<noteq> []\<close> show ?thesis
      by (simp add: normalize_date_str clean_dash2)
  qed
  have c: "normalize_date (PStr ''founded in 1999'') = Inr ''1999-01-01''"
    by code_simp
  have d: "normalize_date (PStr '''') = Inr ''''"
    by (simp add: normalize_date_def)
  have e: "sub_fillers None ''founded in 1999'' = ''  1999''"
    "clean ''founded in 1999'' = ''1999''"
    "clean ''Established ON 7/4/1976'' = ''7/4/1976''"
    by code_simp+
  from a b c d e show ?thesis
    by blast
qed

theorem normalize_date_completes_witness:
  "length ''1999'' = 4 \<and> list_all is_digit ''1999'' \<and> (1::nat) \<le> 5 \<and> (5::nat) \<le> 12
    \<and> normalize_date (PStr ''1999'') = Inr ''1999-01-01''
    \<and> normalize_date (PStr (''1999'' @ ''-'' @ str_nat 5)) = Inr ''1999-05-01''"
proof -
  have h: "length ''1999'' = 4 \<and> list_all is_digit ''1999''"
    by code_simp
  have e: "''1999'' @ ''-'' @ fmt02d 5 @ ''-01'' = ''1999-05-01''"
    by code_simp
  from normalize_date_completes [of "''1999''" 5] h e show ?thesis
    by simp
qed

text \<open>
  C10. Whenever one of the five patterns matches the cleaned input, the result is a string
  of the exact form \<open>\d{4}-\d{2}-\d{2}\<close>, and it is built from the groups of the first
  pattern of the list that matches: the year group as captured, the month and day groups
  padded by \<open>zfill(2)\<close>, with \<open>01\<close> for a group the pattern has not. A group of one digit
  gets a zero in front and a group of two digits is emitted as it is, with no check against
  the calendar: \<open>"99/99/1999"\<close> gives \<open>"1999-99-99"\<close>.
\<close>

theorem normalize_date_canonical:
  "((\<exists>p\<in>set patterns. search p (clean s) \<noteq> None)
      \<longrightarrow> (\<exists>r. normalize_date (PStr s) = Inr r \<and> is_canonical r))
    \<and> (search pat_ymd_dash (clean s1) = Some gs1
         \<longrightarrow> (\<exists>y m d. gs1 = [y, m, d]
               \<and> normalize_date (PStr s1) = Inr (y @ ''-'' @ zfill m 2 @ ''-'' @ zfill d 2)))
    \<and> (search pat_ymd_dash (clean s2) = None \<and> search pat_mdy_slash (clean s2) = Some gs2
         \<longrightarrow> (\<exists>m d y. gs2 = [m, d, y]
               \<and> normalize_date (PStr s2) = Inr (y @ ''-'' @ zfill m 2 @ ''-'' @ zfill d 2)))
    \<and> (search pat_ymd_dash (clean s3) = None \<and> search pat_mdy_slash (clean s3) = None
         \<and> search pat_ymd_slash (clean s3) = Some gs3
         \<longrightarrow> (\<exists>y m d. gs3 = [y, m, d]
               \<and> normalize_date (PStr s3) = Inr (y @ ''-'' @ zfill m 2 @ ''-'' @ zfill d 2)))
    \<and> (search pat_ymd_dash (clean s4) = None \<and> search pat_mdy_slash (clean s4) = None
         \<and> search pat_ymd_slash (clean s4) = None \<and> search pat_ym (clean s4) = Some gs4
         \<longrightarrow> (\<exists>y m. gs4 = [y, m]
               \<and> normalize_date (PStr s4) = Inr (y @ ''-'' @ zfill m 2 @ ''-01'')))
    \<and> (search pat_ymd_dash (clean s5) = None \<and> search pat_mdy_slash (clean s5) = None
         \<and> search pat_ymd_slash (clean s5) = None \<and> search pat_ym (clean s5) = None
         \<and> search pat_y (clean s5) = Some gs5
         \<longrightarrow> (\<exists>y. gs5 = [y] \<and> normalize_date (PStr s5) = Inr (y @ ''-01-01'')))
    \<and> (p \<in> set patterns \<and> search p (clean s6) = Some gs6 \<longrightarrow> groups_ok p gs6)
    \<and> (is_digit a \<longrightarrow> zfill [a] 2 = [CHR ''0'', a])
    \<and> (length g = 2 \<longrightarrow> zfill g 2 = g)
    \<and> normalize_date (PStr ''99/99/1999'') = Inr ''1999-99-99''"
proof -
  have "\<exists>r. normalize_date (PStr s) = Inr r \<and> is_canonical r"
    if h: "\<exists>p\<in>set patterns. search p (clean s) \<noteq> None"
  proof -
    from h obtain p gs where "p \<in> set patterns" "search p (clean s) = Some gs"
      by auto
    then have "s \<noteq> []"
      by (rule match_nonempty)
    moreover from try_patterns_canonical [OF subset_refl h]
    obtain r where "try_patterns patterns (clean s) = Some r" "is_canonical r"
      by blast
    ultimately show ?thesis
      by (simp add: normalize_date_str)
  qed
  moreover have "normalize_date (PStr ''99/99/1999'') = Inr ''1999-99-99''"
    by code_simp
  moreover have "groups_ok p gs6" if "search p (clean s6) = Some gs6"
    using that by (rule search_groups)
  ultimately show ?thesis
    using normalize_first [of s1 gs1] normalize_second [of s2 gs2] normalize_third [of s3 gs3]
      normalize_fourth [of s4 gs4] normalize_fifth [of s5 gs5] zfill_one [of a] zfill_two [of g]
    by blast
qed

theorem normalize_date_canonical_witness:
  "search pat_ymd_dash (clean ''1999-5-7'') = Some [''1999'', ''5'', ''7'']
    \<and> normalize_date (PStr ''1999-5-7'') = Inr ''1999-05-07''
    \<and> search pat_ymd_dash (clean ''99/99/1999'') = None
    \<and> search pat_mdy_slash (clean ''99/99/1999'') = Some [''99'', ''99'', ''1999'']
    \<and> normalize_date (PStr ''99/99/1999'') = Inr ''1999-99-99''
    \<and> search pat_ymd_dash (clean ''1999/5/7'') = None
    \<and> search pat_mdy_slash (clean ''1999/5/7'') = None
    \<and> search pat_ymd_slash (clean ''1999/5/7'') = Some [''1999'', ''5'', ''7'']
    \<and> normalize_date (PStr ''1999/5/7'') = Inr ''1999-05-07''
    \<and> search pat_ymd_dash (clean ''in 1999-13'') = None
    \<and> search pat_mdy_slash (clean ''in 1999-13'') = None
    \<and> search pat_ymd_slash (clean ''in 1999-13'') = None
    \<and> search pat_ym (clean ''in 1999-13'') = Some [''1999'', ''13'']
    \<and> normalize_date (PStr ''in 1999-13'') = Inr ''1999-13-01''
    \<and> search pat_ymd_dash (clean ''May 8, 1886'') = None
    \<and> search pat_mdy_slash (clean ''May 8, 1886'') = None
    \<and> search pat_ymd_slash (clean ''May 8, 1886'') = None
    \<and> search pat_ym (clean ''May 8, 1886'') = None
    \<and> search pat_y (clean ''May 8, 1886'') = Some [''1886'']
    \<and> normalize_date (PStr ''May 8, 1886'') = Inr ''1886-01-01''
    \<and> is_canonical ''1886-01-01''
    \<and> is_digit CHR ''5'' \<and> zfill ''5'' 2 = ''05''
    \<and> length ''99'' = 2 \<and> zfill ''99'' 2 = ''99''"
proof -
  have h1: "search pat_ymd_dash (clean ''1999-5-7'') = Some [''1999'', ''5'', ''7'']"
    by code_simp
  have h2: "search pat_ymd_dash (clean ''99/99/1999'') = None"
    "search pat_mdy_slash (clean ''99/99/1999'') = Some [''99'', ''99'', ''1999'']"
    by code_simp+
  have h3: "search pat_ymd_dash (clean ''1999/5/7'') = None"
    "search pat_mdy_slash (clean ''1999/5/7'') = None"
    "search pat_ymd_slash (clean ''1999/5/7'') = Some [''1999'', ''5'', ''7'']"
    by code_simp+
  have h4: "search pat_ymd_dash (clean ''in 1999-13'') = None"
    "search pat_mdy_slash (clean ''in 1999-13'') = None"
    "search pat_ymd_slash (clean ''in 1999-13'') = None"
    "search pat_ym (clean ''in 1999-13'') = Some [''1999'', ''13'']"
    by code_simp+
  have h5: "search pat_ymd_dash (clean ''May 8, 1886'') = None"
    "search pat_mdy_slash (clean ''May 8, 1886'') = None"
    "search pat_ymd_slash (clean ''May 8, 1886'') = None"
    "search pat_ym (clean ''May 8, 1886'') = None"
    "search pat_y (clean ''May 8, 1886'') = Some [''1886'']"
    by code_simp+
  from h5(5) have h0: "\<exists>p\<in>set patterns. search p (clean ''May 8, 1886'') \<noteq> None"
    by (simp add: patterns_def)
  have h6: "pat_y \<in> set patterns"
    by (simp add: patterns_def)
  have z: "is_digit CHR ''5''" "length ''99'' = 2" "zfill ''5'' 2 = ''05''" "zfill ''99'' 2 = ''99''"
    "zfill ''7'' 2 = ''07''" "zfill ''13'' 2 = ''13''"
    by code_simp+
  have e: "normalize_date (PStr ''May 8, 1886'') = Inr ''1886-01-01''"
    by code_simp
  from normalize_date_canonical
    [of "''May 8, 1886''" "''1999-5-7''" "[''1999'', ''5'', ''7'']"
      "''99/99/1999''" "[''99'', ''99'', ''1999'']"
      "''1999/5/7''" "[''1999'', ''5'', ''7'']"
      "''in 1999-13''" "[''1999'', ''13'']"
      "''May 8, 1886''" "[''1886'']"
      pat_y "''May 8, 1886''" "[''1886'']" "CHR ''5''" "''99''"]
    h0 h1 h2 h3 h4 h5 h6 z e
  show ?thesis
    by auto
qed

section \<open>Facts about the validation of one result\<close>

lemma add_companies_acc:
  "add_companies items acc = (fst (add_companies items []), acc @ snd (add_companies items []))"
proof (induction items arbitrary: acc)
  case Nil
  then show ?case by simp
next
  case (Cons x items)
  show ?case
  proof (cases "make_company x")
    case (Inl e)
    then show ?thesis by simp
  next
    case (Inr c)
    with Cons.IH [of "acc @ [c]"] Cons.IH [of "[c]"] show ?thesis
      by simp
  qed
qed

lemma process_result_acc:
  "process_result r acc = (fst (process_result r []), acc @ snd (process_result r []))"
proof (cases r)
  case (PDict d)
  then show ?thesis
    using add_companies_acc [of _ acc]
    by (auto split: option.splits sum.splits)
qed simp_all

lemma add_companies_append:
  "add_companies (xs @ zs) acc =
     (case add_companies xs acc of
        (None, acc') \<Rightarrow> add_companies zs acc'
      | (Some e, acc') \<Rightarrow> (Some e, acc'))"
  by (induction xs arbitrary: acc) (auto split: sum.splits)

lemma make_company_not_dict:
  "\<not> is_dict v \<Longrightarrow> make_company v =
     Inl (AttributeError (quoted (type_name v) @ '' object has no attribute '' @ quoted ''get''))"
  by (cases v) (simp_all add: make_company_def)

lemma make_company_dict:
  "make_company (PDict d) =
     (case normalize_date (get d ''founding_date'' (PStr [])) of
        Inl e \<Rightarrow> Inl e
      | Inr date \<Rightarrow>
          Inr \<lparr>company_name = get d ''company_name'' (PStr []), founding_date = date,
               founders = get d ''founders'' (PList [])\<rparr>)"
  by (simp add: make_company_def split: sum.splits)

lemma normalize_date_returns:
  "\<not> truthy raw \<or> is_str raw \<Longrightarrow> \<exists>date. normalize_date raw = Inr date"
  by (cases raw) (auto simp: normalize_date_def split: option.splits)

section \<open>Facts about the paragraph loop\<close>

lemma process_paragraphs_acc:
  "snd (process_paragraphs invoke ps (s, printed, acc)) =
     (printed @ concat (map printed_of (outcomes invoke s ps)),
      acc @ concat (map records_of (outcomes invoke s ps)))"
proof (induction ps arbitrary: s printed acc)
  case Nil
  then show ?case by simp
next
  case (Cons p ps)
  obtain r s' where r: "invoke s p = (r, s')"
    by (cases "invoke s p")
  show ?case
  proof (cases r)
    case (Inl e)
    with r Cons.IH [of s' "printed @ [error_line e]" acc] show ?thesis
      by simp
  next
    case (Inr result)
    define acc' where "acc' = acc @ snd (process_result result [])"
    show ?thesis
    proof (cases "fst (process_result result [])")
      case None
      with process_result_acc [of result acc]
      have "process_result result acc = (None, acc')"
        by (simp add: acc'_def)
      with r Inr None Cons.IH [of s' printed acc'] show ?thesis
        by (simp add: acc'_def)
    next
      case (Some e)
      with process_result_acc [of result acc]
      have "process_result result acc = (Some e, acc')"
        by (simp add: acc'_def)
      with r Inr Some Cons.IH [of s' "printed @ [error_line e]" acc'] show ?thesis
        by (simp add: acc'_def)
    qed
  qed
qed

lemma normalizable_returns: "normalizable raw \<Longrightarrow> \<exists>date. normalize_date raw = Inr date"
  by (cases raw) (auto simp: normalize_date_def split: if_splits option.splits)

lemma well_formed_makes: "well_formed_entry x \<Longrightarrow> \<exists>r. make_company x = Inr r"
proof (cases x)
  case (PDict d)
  assume "well_formed_entry x"
  with PDict normalizable_returns [of "get d ''founding_date'' (PStr [])"] show ?thesis
    by (auto simp: make_company_dict)
qed simp_all

lemma add_well_formed:
  "list_all well_formed_entry xs \<Longrightarrow>
     \<exists>rs. list_all2 (\<lambda>x r. make_company x = Inr r) xs rs
       \<and> add_companies xs acc = (None, acc @ rs)"
proof (induction xs arbitrary: acc)
  case Nil
  then show ?case by simp
next
  case (Cons x xs)
  from Cons.prems obtain r where r: "make_company x = Inr r"
    using well_formed_makes [of x] by auto
  from Cons.prems have "list_all well_formed_entry xs"
    by simp
  from Cons.IH [OF this, of "acc @ [r]"] obtain rs
    where "list_all2 (\<lambda>x r. make_company x = Inr r) xs rs"
      and "add_companies xs (acc @ [r]) = (None, acc @ r # rs)"
    by auto
  with r show ?case
    by (intro exI [of _ "r # rs"]) simp
qed

text \<open>
  C1. The loop isolates a failed call: with a chain that fails on the first of two
  paragraphs and answers the second, the loop prints the exception of the first, adds no
  record for it and adds the record of the second. The run does not always return that
  record, though: the export that follows is outside every \<open>try\<close>, so with a second
  paragraph whose company has \<open>founders\<close> \<open>null\<close> the caller gets \<open>TypeError\<close>, and on a
  disk that refuses the file the caller gets \<open>OSError\<close>. With the stub result and a disk
  that takes the file the run returns exactly the record of the second paragraph.
\<close>

theorem failed_paragraph_then_export_raises:
  "paragraphs (''p1'' @ [nl, nl] @ ''p2'') = [''p1'', ''p2'']
    \<and> process_paragraphs failing_then_null [''p1'', ''p2''] (0, [], [])
        = (2, [''Error processing paragraph: timeout''],
           [\<lparr>company_name = PStr ''Acme'', founding_date = '''', founders = PNone\<rparr>])
    \<and> fst (process_text_direct failing_then_null (''p1'' @ [nl, nl] @ ''p2'') 0 empty_disk)
        = Inl (TypeError ''can only join an iterable'')
    \<and> process_paragraphs failing_then_acme [''p1'', ''p2''] (0, [], [])
        = (2, [''Error processing paragraph: timeout''],
           [\<lparr>company_name = PStr ''Acme Corp'', founding_date = ''1999-01-01'',
              founders = PList [PStr ''Jane Doe'']\<rparr>])
    \<and> fst (process_text_direct failing_then_acme (''p1'' @ [nl, nl] @ ''p2'') 0 readonly_disk)
        = Inl (OSError ''Permission denied'')
    \<and> fst (process_text_direct failing_then_acme (''p1'' @ [nl, nl] @ ''p2'') 0 empty_disk)
        = Inr [\<lparr>company_name = PStr ''Acme Corp'', founding_date = ''1999-01-01'',
                founders = PList [PStr ''Jane Doe'']\<rparr>]"
  by code_simp

text \<open>
  C6, as amended. In a sequence of company entries, let the entries before the first one
  that is not a dictionary each be a dictionary whose \<open>founding_date\<close> is missing, falsy or
  a string. Then these entries are processed and their records kept; the entry that is not
  a dictionary raises \<open>AttributeError\<close> inside the paragraph's \<open>try\<close>: the exception is
  printed, the entries after it in the same paragraph are dropped, and the loop goes on
  with the next paragraph.
\<close>

theorem malformed_entry_ends_paragraph:
  assumes "map_of d ''companies'' = Some (PList (xs @ v # ys))"
    and "list_all well_formed_entry xs"
    and "\<not> is_dict v"
    and "e = AttributeError (quoted (type_name v) @ '' object has no attribute '' @ quoted ''get'')"
  shows "\<exists>rs. list_all2 (\<lambda>x r. make_company x = Inr r) xs rs
    \<and> process_result (PDict d) acc = (Some e, acc @ rs)
    \<and> (invoke s p = (Inr (PDict d), s')
         \<longrightarrow> process_paragraphs invoke (p # rest) (s, printed, acc)
               = process_paragraphs invoke rest (s', printed @ [error_line e], acc @ rs))"
proof -
  from add_well_formed [OF assms(2), of acc] obtain rs
    where rs: "list_all2 (\<lambda>x r. make_company x = Inr r) xs rs"
      and a: "add_companies xs acc = (None, acc @ rs)"
    by blast
  from a assms(3,4) have "add_companies (xs @ v # ys) acc = (Some e, acc @ rs)"
    by (simp add: add_companies_append make_company_not_dict)
  with assms(1) have "process_result (PDict d) acc = (Some e, acc @ rs)"
    by simp
  with rs show ?thesis
    by (intro exI [of _ rs]) simp
qed

theorem malformed_entry_ends_paragraph_witness:
  "map_of [(''companies'', PList [acme_entry, PInt 3, acme_entry])] ''companies''
      = Some (PList [acme_entry, PInt 3, acme_entry])
    \<and> list_all well_formed_entry [acme_entry]
    \<and> \<not> is_dict (PInt 3)
    \<and> mixed_chain () ''p'' =
        (Inr (PDict [(''companies'', PList [acme_entry, PInt 3, acme_entry])]), ())
    \<and> make_company acme_entry =
        Inr \<lparr>company_name = PStr ''Acme Corp'', founding_date = ''1999-01-01'',
             founders = PList [PStr ''Jane Doe'']\<rparr>
    \<and> process_result (PDict [(''companies'', PList [acme_entry, PInt 3, acme_entry])]) []
        = (Some (AttributeError
                  (quoted (type_name (PInt 3)) @ '' object has no attribute '' @ quoted ''get'')),
           [\<lparr>company_name = PStr ''Acme Corp'', founding_date = ''1999-01-01'',
              founders = PList [PStr ''Jane Doe'']\<rparr>])
    \<and> process_paragraphs mixed_chain [''p'', ''q''] ((), [], [])
        = process_paragraphs mixed_chain [''q'']
            ((),
             [''Error processing paragraph: '' @ quoted ''int''
                @ '' object has no attribute '' @ quoted ''get''],
             [\<lparr>company_name = PStr ''Acme Corp'', founding_date = ''1999-01-01'',
                founders = PList [PStr ''Jane Doe'']\<rparr>])"
proof -
  have h1: "map_of [(''companies'', PList [acme_entry, PInt 3, acme_entry])] ''companies''
      = Some (PList [acme_entry, PInt 3, acme_entry])"
    by simp
  have h2: "list_all well_formed_entry [acme_entry]"
    by code_simp
  have h3: "\<not> is_dict (PInt 3)"
    by simp
  have h4: "mixed_chain () ''p'' =
        (Inr (PDict [(''companies'', PList [acme_entry, PInt 3, acme_entry])]), ())"
    by (simp add: mixed_chain_def mixed_result_def)
  have m: "make_company acme_entry =
        Inr \<lparr>company_name = PStr ''Acme Corp'', founding_date = ''1999-01-01'',
             founders = PList [PStr ''Jane Doe'']\<rparr>"
    by code_simp
  have l: "error_line (AttributeError
      (quoted (type_name (PInt 3)) @ '' object has no attribute '' @ quoted ''get''))
    = ''Error processing paragraph: '' @ quoted ''int''
        @ '' object has no attribute '' @ quoted ''get''"
    by (simp add: error_line_def)
  from malformed_entry_ends_paragraph
    [of "[(''companies'', PList [acme_entry, PInt 3, acme_entry])]" "[acme_entry]" "PInt 3"
      "[acme_entry]" _ "[]" mixed_chain "()" "''p''" "()" "[''q'']" "[]", OF _ h2 h3 refl]
    h1 h2 h3 h4 m l
  show ?thesis
    by (auto simp: list_all2_Cons1)
qed

text \<open>
  C6, as stated, fails: in the result \<open>{"companies": ["x", {"company_name": "A"}]}\<close> the
  entry after the string is a dictionary, and no record of it is kept.
\<close>

theorem malformed_entry_counterexample:
  "make_company (PDict [(''company_name'', PStr ''A'')])
      = Inr \<lparr>company_name = PStr ''A'', founding_date = '''', founders = PList []\<rparr>
    \<and> snd (process_result
             (PDict [(''companies'', PList [PStr ''x'', PDict [(''company_name'', PStr ''A'')]])])
             []) = []"
  by code_simp

text \<open>
  C7, as amended. For a dictionary entry whose \<open>founding_date\<close> is missing, falsy or a
  string, the record holds \<open>company_name\<close> with the empty string as default, the
  normalized \<open>founding_date\<close> with the empty string as default, and \<open>founders\<close> with
  the empty list as default. A \<open>founders\<close> value that is present goes into the record as
  it is, whatever its shape.
\<close>

theorem make_company_fields:
  assumes "raw = get d ''founding_date'' (PStr [])" and "\<not> truthy raw \<or> is_str raw"
  shows "(\<exists>date. normalize_date raw = Inr date
           \<and> make_company (PDict d) =
               Inr \<lparr>company_name = get d ''company_name'' (PStr []), founding_date = date,
                    founders = get d ''founders'' (PList [])\<rparr>)
    \<and> (map_of d key = None \<longrightarrow> get d key dflt = dflt)
    \<and> (map_of d key = Some v \<longrightarrow> get d key dflt = v)"
proof -
  from normalize_date_returns [OF assms(2)] obtain date where "normalize_date raw = Inr date"
    by blast
  with assms(1) show ?thesis
    by (simp add: make_company_dict get_def)
qed

theorem make_company_fields_witness:
  "PStr ''founded in 1999''
      = get [(''company_name'', PStr ''Acme Corp''), (''founding_date'', PStr ''founded in 1999''),
             (''founders'', PList [PStr ''Jane Doe''])] ''founding_date'' (PStr [])
    \<and> is_str (PStr ''founded in 1999'')
    \<and> map_of [(''company_name'', PStr ''Acme Corp''), (''founding_date'', PStr ''founded in 1999''),
               (''founders'', PList [PStr ''Jane Doe''])] ''founders''
        = Some (PList [PStr ''Jane Doe''])
    \<and> make_company (PDict [(''company_name'', PStr ''Acme Corp''),
                            (''founding_date'', PStr ''founded in 1999''),
                            (''founders'', PList [PStr ''Jane Doe''])])
        = Inr \<lparr>company_name = PStr ''Acme Corp'', founding_date = ''1999-01-01'',
               founders = PList [PStr ''Jane Doe'']\<rparr>"
proof -
  let ?d = "[(''company_name'', PStr ''Acme Corp''), (''founding_date'', PStr ''founded in 1999''),
             (''founders'', PList [PStr ''Jane Doe''])]"
  have h1: "PStr ''founded in 1999'' = get ?d ''founding_date'' (PStr [])"
    by (simp add: get_def)
  have h2: "\<not> truthy (PStr ''founded in 1999'') \<or> is_str (PStr ''founded in 1999'')"
    by simp
  have h3: "map_of ?d ''founders'' = Some (PList [PStr ''Jane Doe''])"
    by simp
  have e: "normalize_date (PStr ''founded in 1999'') = Inr ''1999-01-01''"
    by code_simp
  have g: "get ?d ''company_name'' (PStr []) = PStr ''Acme Corp''"
    "get ?d ''founders'' (PList []) = PList [PStr ''Jane Doe'']"
    by (simp_all add: get_def)
  from make_company_fields [OF h1 h2, of "''founders''" "PList []" "PList [PStr ''Jane Doe'']"]
    h1 h3 e g
  show ?thesis
    by simp
qed

text \<open>
  C7, as stated, fails: a \<open>founders\<close> value that is no sequence, here \<open>null\<close>, goes into
  the record and is not replaced by the empty sequence.
\<close>

theorem founders_not_coerced_counterexample:
  "make_company (PDict [(''company_name'', PStr ''Acme''), (''founders'', PNone)])
      = Inr \<lparr>company_name = PStr ''Acme'', founding_date = '''', founders = PNone\<rparr>
    \<and> make_company (PDict [(''company_name'', PStr ''Acme''), (''founders'', PNone)])
      \<noteq> Inr \<lparr>company_name = PStr ''Acme'', founding_date = '''', founders = PList []\<rparr>"
  by code_simp

text \<open>
  C8. The run does not always return: the export is called outside every \<open>try\<close>, so an
  exception it raises reaches the caller. On a disk that refuses the file the run raises
  \<open>OSError\<close>, and with a result whose \<open>founders\<close> is \<open>null\<close> it raises \<open>TypeError\<close>;
  on the same disk \<open>save_to_csv\<close> returns a status.
\<close>

theorem process_text_direct_export_raises:
  "fst (process_text_direct always_acme ''Acme Corp was founded in 1999 by Jane Doe.'' ()
          readonly_disk) = Inl (OSError ''Permission denied'')
    \<and> fst (process_text_direct null_founders_chain ''Acme'' () empty_disk)
        = Inl (TypeError ''can only join an iterable'')
    \<and> fst (save_to_csv [acme_entry] ''company_info.csv'' readonly_disk)
        = Inr ''Error saving to CSV: Permission denied''"
  by code_simp

section \<open>Facts about the export\<close>

lemma write_row_rows:
  "files (write_row filename row d) filename =
     Some ((case files d filename of None \<Rightarrow> [] | Some rows \<Rightarrow> rows) @ [row])"
  by (simp add: write_row_def)

lemma write_dicts_rows:
  "write_dicts filename cs d = (None, d') \<Longrightarrow> files d filename = Some old \<Longrightarrow>
     \<exists>rows. length rows = length cs \<and> files d' filename = Some (old @ rows)"
proof (induction cs arbitrary: d old)
  case Nil
  then show ?case
    by auto
next
  case (Cons c cs)
  from Cons.prems(1) obtain row
    where w: "write_dicts filename cs (write_row filename row d) = (None, d')"
    by (auto split: sum.splits)
  from Cons.prems(2) have "files (write_row filename row d) filename = Some (old @ [row])"
    by (simp add: write_row_rows)
  from Cons.IH [OF w this] obtain rows where "length rows = length cs"
    and "files d' filename = Some (old @ row # rows)"
    by auto
  then show ?case
    by (intro exI [of _ "row # rows"]) simp
qed

lemma open_w_refused: "refused d filename = Some m \<Longrightarrow> open_w filename d = Inl (OSError m)"
  by (simp add: open_w_def)

lemma open_w_granted:
  "refused d filename = None \<Longrightarrow>
     \<exists>d'. open_w filename d = Inr d' \<and> files d' filename = Some []"
  by (simp add: open_w_def)

lemma status_differ:
  "''Successfully saved '' @ a \<noteq> ''Error saving to CSV: '' @ b"
  by simp

text \<open>
  The body of the sibling \<open>save_to_csv\<close> raises nothing: it returns the success status
  with the number of companies, or a failure status that carries the text of the exception.
  When the file cannot be opened, the status carries the text of that error. When the status
  is the success status, the file holds the header and one row for each company.
\<close>

lemma save_to_csv_status:
  "(\<exists>status. fst (save_to_csv cs filename d) = Inr status)
    \<and> (fst (save_to_csv cs filename d)
          = Inr (''Successfully saved '' @ str_nat (length cs) @ '' companies to '' @ filename)
        \<or> (\<exists>e. fst (save_to_csv cs filename d) = Inr (''Error saving to CSV: '' @ str_exn e)))
    \<and> (refused d filename = Some m
         \<longrightarrow> fst (save_to_csv cs filename d) = Inr (''Error saving to CSV: '' @ m))
    \<and> (fst (save_to_csv cs filename d)
          = Inr (''Successfully saved '' @ str_nat (length cs) @ '' companies to '' @ filename)
         \<longrightarrow> (\<exists>rows. length rows = length cs
               \<and> files (snd (save_to_csv cs filename d)) filename = Some (fieldnames # rows)))"
proof -
  define body where "body =
    (case open_w filename d of
       Inl e \<Rightarrow> (Some e, d)
     | Inr d' \<Rightarrow> write_dicts filename cs (write_row filename fieldnames d'))"
  have s: "save_to_csv cs filename d =
    (case body of
       (None, d') \<Rightarrow>
         (Inr (''Successfully saved '' @ str_nat (length cs) @ '' companies to '' @ filename), d')
     | (Some e, d') \<Rightarrow> (Inr (''Error saving to CSV: '' @ str_exn e), d'))"
    by (simp add: save_to_csv_def body_def)
  obtain x d' where b: "body = (x, d')"
    by (cases body)
  have a1: "\<exists>status. fst (save_to_csv cs filename d) = Inr status"
    using s b by (cases x) simp_all
  have a2: "fst (save_to_csv cs filename d)
          = Inr (''Successfully saved '' @ str_nat (length cs) @ '' companies to '' @ filename)
        \<or> (\<exists>e. fst (save_to_csv cs filename d) = Inr (''Error saving to CSV: '' @ str_exn e))"
    using s b by (cases x) auto
  have a3: "fst (save_to_csv cs filename d) = Inr (''Error saving to CSV: '' @ m)"
    if "refused d filename = Some m"
    using s open_w_refused [OF that] by (simp add: body_def)
  have a4: "\<exists>rows. length rows = length cs
               \<and> files (snd (save_to_csv cs filename d)) filename = Some (fieldnames # rows)"
    if h: "fst (save_to_csv cs filename d)
          = Inr (''Successfully saved '' @ str_nat (length cs) @ '' companies to '' @ filename)"
  proof -
    from h s b have x: "x = None"
      by (cases x) simp_all
    with s b have d': "snd (save_to_csv cs filename d) = d'"
      by simp
    from b x obtain d0 where o: "open_w filename d = Inr d0"
      and w: "write_dicts filename cs (write_row filename fieldnames d0) = (None, d')"
      by (auto simp: body_def split: sum.splits)
    from o have "files d0 filename = Some []"
      by (auto simp: open_w_def split: option.splits)
    then have "files (write_row filename fieldnames d0) filename = Some [fieldnames]"
      by (simp add: write_row_rows)
    from write_dicts_rows [OF w this] d' show ?thesis
      by auto
  qed
  from a1 a2 a3 a4 show ?thesis
    by blast
qed

lemma save_to_csv_status_example:
  "refused readonly_disk ''company_info.csv'' = Some ''Permission denied''
    \<and> fst (save_to_csv [acme_entry] ''company_info.csv'' readonly_disk)
        = Inr ''Error saving to CSV: Permission denied''
    \<and> fst (save_to_csv [acme_entry] ''out.csv'' empty_disk)
        = Inr ''Successfully saved 1 companies to out.csv''
    \<and> files (snd (save_to_csv [acme_entry] ''out.csv'' empty_disk)) ''out.csv''
        = Some [fieldnames, [PStr ''Acme Corp'', PStr ''founded in 1999'', PStr ''Jane Doe'']]"
proof -
  have h1: "refused readonly_disk ''company_info.csv'' = Some ''Permission denied''"
    by (simp add: readonly_disk_def)
  have h2: "fst (save_to_csv [acme_entry] ''out.csv'' empty_disk)
        = Inr ''Successfully saved 1 companies to out.csv''"
    by code_simp
  have h3: "files (snd (save_to_csv [acme_entry] ''out.csv'' empty_disk)) ''out.csv''
        = Some [fieldnames, [PStr ''Acme Corp'', PStr ''founded in 1999'', PStr ''Jane Doe'']]"
    by code_simp
  from save_to_csv_status
    [of "[acme_entry]" "''company_info.csv''" readonly_disk "''Permission denied''"]
    h1 h2 h3
  show ?thesis
    by simp
qed

text \<open>
  C9. The export that the pipeline calls, \<open>_save_companies_to_csv\<close>, has no \<open>try\<close> and
  returns no status. On a disk that refuses the file the \<open>OSError\<close> of \<open>open\<close> leaves
  it, for an empty list of records and for a list of one record alike; on a disk that takes
  the file it raises nothing.
\<close>

theorem save_companies_to_csv_raises:
  "fst (save_companies_to_csv [] ''company_info.csv'' readonly_disk)
      = Some (OSError ''Permission denied'')
    \<and> fst (save_companies_to_csv
             [\<lparr>company_name = PStr ''Acme Corp'', founding_date = ''1999-01-01'',
                founders = PList [PStr ''Jane Doe'']\<rparr>]
             ''company_info.csv'' readonly_disk)
        = Some (OSError ''Permission denied'')
    \<and> fst (save_companies_to_csv
             [\<lparr>company_name = PStr ''Acme Corp'', founding_date = ''1999-01-01'',
                founders = PList [PStr ''Jane Doe'']\<rparr>]
             ''company_info.csv'' empty_disk)
        = None"
  by code_simp

end
